theory Spec2Isabelle
  imports Complex_Main "HOL-Library.Log_Nat"
begin

section \<open>The snake game of \<open>main.py\<close>\<close>

text \<open>
  The game state of \<open>main.py\<close> and the methods of \<open>Game\<close> that act on it, as
  functions that take the state and return the new one. A method that can raise returns
  \<open>error + Game\<close>, with \<open>Inl\<close> for the exception. The two outside influences on the
  state are made arguments: the draws of \<open>random.randint\<close> and the key read from the
  terminal. What is printed is kept as a list of terminal operations, field \<open>out\<close>.
  \<open>Game.render\<close> and the \<open>canvas\<close> it fills are left out: \<open>canvas\<close> is read and
  written by \<open>render\<close> alone, and \<open>render\<close> assigns no other attribute.
\<close>

subsection \<open>Python values\<close>

datatype error = IndexError | KeyError

text \<open>
  A Python \<open>float\<close> is an IEEE 754 binary64 number. The finite ones are rationals, and
  \<open>speed\<close> is modelled by its rational value. An arithmetic result is the exact result
  rounded to the nearest binary64 number, ties to the even significand
  (\<open>round_binary64\<close>): the significand has 53 bits, the least exponent of a normal
  number is \<open>- 1022\<close>, and below \<open>2 powi - 1022\<close> the spacing stays \<open>2 powi - 1074\<close>
  (subnormal numbers). Overflow to infinity is not modelled (the only arithmetic of the
  program is a multiplication by \<open>0.9\<close>, which cannot overflow), and the two zeros are
  one.
\<close>

definition ilog2 :: "rat \<Rightarrow> int" where
  \<comment> \<open>for \<open>0 < q\<close>: the exponent \<open>e\<close> with \<open>2 powi e \<le> q < 2 powi (e + 1)\<close>\<close>
  "ilog2 q = (if 1 \<le> q then bitlen \<lfloor>q\<rfloor> - 1 else - bitlen (\<lceil>1 / q\<rceil> - 1))"

definition ulp :: "rat \<Rightarrow> rat" where
  \<comment> \<open>the spacing of the binary64 numbers around \<open>q\<close>\<close>
  "ulp q = 2 powi (max (ilog2 \<bar>q\<bar>) (- 1022) - 52)"

definition round_half_even :: "rat \<Rightarrow> int" where
  "round_half_even q =
     (let f = \<lfloor>q\<rfloor>; d = q - of_int f
      in if d < 1 / 2 then f
         else if 1 / 2 < d then f + 1
         else if even f then f else f + 1)"

definition round_binary64 :: "rat \<Rightarrow> rat" where
  "round_binary64 q = (if q = 0 then 0 else of_int (round_half_even (q / ulp q)) * ulp q)"

definition float_lit :: "rat \<Rightarrow> rat" where
  \<comment> \<open>a decimal literal of the source text denotes the nearest binary64 number\<close>
  "float_lit q = round_binary64 q"

definition fmul :: "rat \<Rightarrow> rat \<Rightarrow> rat" where
  \<comment> \<open>\<open>a * b\<close> on floats\<close>
  "fmul a b = round_binary64 (a * b)"

definition py_max :: "rat \<Rightarrow> rat \<Rightarrow> rat" where
  \<comment> \<open>\<open>max(a, b)\<close>: the first argument unless the second is greater\<close>
  "py_max a b = (if a < b then b else a)"

definition randint :: "int \<Rightarrow> int \<Rightarrow> nat \<Rightarrow> int" where
  \<comment> \<open>\<open>random.randint(a, b)\<close> is \<open>a\<close> plus a number below \<open>b - a + 1\<close> taken from the
      generator; \<open>r\<close> is what the generator supplies\<close>
  "randint a b r = a + int (r mod nat (b - a + 1))"

definition lower_char :: "char \<Rightarrow> char" where
  \<comment> \<open>\<open>str.lower\<close> on one character, for the code points below 256: the capitals
      \<open>A\<close> to \<open>Z\<close> and the Latin-1 capitals \<open>0xC0\<close> to \<open>0xDE\<close> other than \<open>0xD7\<close>
      move up by 32. No character beyond 255 lowers to a letter of \<open>wasd\<close>.\<close>
  "lower_char c =
     (let n = (of_char c :: nat)
      in if (65 \<le> n \<and> n \<le> 90) \<or> (192 \<le> n \<and> n \<le> 222 \<and> n \<noteq> 215)
         then char_of (n + 32) else c)"

definition lower :: "string \<Rightarrow> string" where
  "lower s = map lower_char s"

subsection \<open>The data model\<close>

datatype Direction = UP | DOWN | LEFT | RIGHT

record Point =
  x :: int
  y :: int

definition Point_add :: "Point \<Rightarrow> Point \<Rightarrow> Point" where
  \<comment> \<open>\<open>Point.__add__\<close>\<close>
  "Point_add a b = \<lparr>x = x a + x b, y = y a + y b\<rparr>"

fun DIRECTION_VECTORS :: "Direction \<Rightarrow> Point" where
  "DIRECTION_VECTORS UP = \<lparr>x = - 1, y = 0\<rparr>"
| "DIRECTION_VECTORS DOWN = \<lparr>x = 1, y = 0\<rparr>"
| "DIRECTION_VECTORS LEFT = \<lparr>x = 0, y = - 1\<rparr>"
| "DIRECTION_VECTORS RIGHT = \<lparr>x = 0, y = 1\<rparr>"

record Snake =
  body :: "Point list"
  direction :: Direction

definition head :: "Snake \<Rightarrow> error + Point" where
  \<comment> \<open>\<open>self.body[-1]\<close>\<close>
  "head s = (case body s of [] \<Rightarrow> Inl IndexError | _ # _ \<Rightarrow> Inr (last (body s)))"

definition tail :: "Snake \<Rightarrow> error + Point" where
  \<comment> \<open>\<open>self.body[0]\<close>\<close>
  "tail s = (case body s of [] \<Rightarrow> Inl IndexError | p # _ \<Rightarrow> Inr p)"

record Apple =
  position :: Point

datatype glyph = Blank | BodyGlyph | HeadGlyph | AppleGlyph | ScoreText int

datatype term_op =
    CursorTo int int  \<comment> \<open>the escape sequence \<open>ESC [ row ; col H\<close>\<close>
  | Put glyph  \<comment> \<open>the text printed at the cursor\<close>

record Game =
  height :: int
  width :: int
  speed :: rat
  score :: int
  game_over :: bool
  snake :: Snake
  apple :: Apple
  out :: "term_op list"

definition Game_init :: "int \<Rightarrow> int \<Rightarrow> Game" where
  \<comment> \<open>\<open>Game.__init__(w, h)\<close>\<close>
  "Game_init w h =
     \<lparr>height = h, width = w, speed = float_lit (5 / 10), score = 0, game_over = False,
      snake = \<lparr>body = [\<lparr>x = 1, y = 3\<rparr>, \<lparr>x = 2, y = 3\<rparr>, \<lparr>x = 3, y = 3\<rparr>, \<lparr>x = 4, y = 3\<rparr>],
               direction = DOWN\<rparr>,
      apple = \<lparr>position = \<lparr>x = 20, y = 20\<rparr>\<rparr>,
      out = []\<rparr>"

subsection \<open>The methods of \<open>Game\<close>\<close>

text \<open>
  Each method follows its source line by line; the states \<open>g1\<close>, \<open>g2\<close>, ... are
  the object after each assignment. When a method raises, the object keeps what was
  assigned before; the model returns the exception alone, since \<open>main.py\<close> catches
  none and ends.
\<close>

definition print :: "term_op list \<Rightarrow> Game \<Rightarrow> Game" where
  "print ops g = g\<lparr>out := out g @ ops\<rparr>"

definition update_score :: "Game \<Rightarrow> Game" where
  "update_score g = print [CursorTo 1 4, Put (ScoreText (score g))] g"

definition spawn_apple :: "Game \<Rightarrow> nat \<times> nat \<Rightarrow> Game" where
  "spawn_apple g rnd =
     (let px = randint 1 40 (fst rnd);
          py = randint 1 40 (snd rnd);
          g1 = g\<lparr>apple := (apple g)\<lparr>position := \<lparr>x = px, y = py\<rparr>\<rparr>\<rparr>
      in print [CursorTo (px + 1) (py + 1), Put AppleGlyph] g1)"

definition validate_direction :: "Game \<Rightarrow> Point \<Rightarrow> nat \<times> nat \<Rightarrow> error + Game" where
  "validate_direction g new_head rnd =
     (if x new_head \<le> 0 \<or> x new_head \<ge> height g - 1
         \<or> y new_head \<le> 0 \<or> y new_head \<ge> width g - 1
      then Inr (g\<lparr>game_over := True\<rparr>)
      else if list_ex (\<lambda>b. x b = x new_head \<and> y b = y new_head) (butlast (body (snake g)))
      then Inr (g\<lparr>game_over := True\<rparr>)
      else if new_head = position (apple g)
      then (let g1 = spawn_apple g rnd
            in case tail (snake g1) of
                 Inl e \<Rightarrow> Inl e
               | Inr t \<Rightarrow>
                   (let g2 = g1\<lparr>snake := (snake g1)
                                  \<lparr>body := \<lparr>x = x t + 1, y = y t + 1\<rparr> # body (snake g1)\<rparr>\<rparr>;
                        g3 = g2\<lparr>speed := py_max (float_lit (5 / 100))
                                              (fmul (speed g2) (float_lit (9 / 10)))\<rparr>;
                        g4 = g3\<lparr>score := score g3 + 1\<rparr>
                    in Inr (update_score g4)))
      else Inr g)"

definition pop0 :: "'a list \<Rightarrow> error + 'a list" where
  \<comment> \<open>the list after \<open>pop(0)\<close>\<close>
  "pop0 xs = (case xs of [] \<Rightarrow> Inl IndexError | _ # rest \<Rightarrow> Inr rest)"

definition move :: "Game \<Rightarrow> Direction option \<Rightarrow> nat \<times> nat \<Rightarrow> error + Game" where
  \<comment> \<open>every \<open>Direction\<close> is true in Python, so \<open>not new_direction\<close> holds for \<open>None\<close> alone\<close>
  "move g new_direction rnd =
     (let nd = (case new_direction of None \<Rightarrow> direction (snake g) | Some d \<Rightarrow> d)
      in case head (snake g) of
           Inl e \<Rightarrow> Inl e
         | Inr h \<Rightarrow>
             (let new_head = Point_add h (DIRECTION_VECTORS nd)
              in case validate_direction g new_head rnd of
                   Inl e \<Rightarrow> Inl e
                 | Inr g1 \<Rightarrow>
                     (let g2 = g1\<lparr>snake := (snake g1)\<lparr>body := body (snake g1) @ [new_head]\<rparr>\<rparr>
                      in case tail (snake g2) of
                           Inl e \<Rightarrow> Inl e
                         | Inr t \<Rightarrow>
                             (let g3 = print [CursorTo (x t + 1) (y t + 1), Put Blank] g2
                              in case pop0 (body (snake g3)) of
                                   Inl e \<Rightarrow> Inl e
                                 | Inr rest \<Rightarrow>
                                     (let g4 = g3\<lparr>snake := (snake g3)\<lparr>body := rest\<rparr>\<rparr>;
                                          g5 = g4\<lparr>snake := (snake g4)\<lparr>direction := nd\<rparr>\<rparr>;
                                          g6 = print (concat (map (\<lambda>i. [CursorTo (x i + 1) (y i + 1),
                                                                      Put BodyGlyph])
                                                              (butlast (body (snake g5))))) g5
                                      in Inr (print [CursorTo (x new_head + 1) (y new_head + 1),
                                                     Put HeadGlyph] g6))))))"

definition CONTROLS :: "string \<rightharpoonup> Direction" where
  "CONTROLS = [''w'' \<mapsto> UP, ''s'' \<mapsto> DOWN, ''a'' \<mapsto> LEFT, ''d'' \<mapsto> RIGHT]"

fun opposite_directions :: "Direction \<Rightarrow> Direction" where
  "opposite_directions UP = DOWN"
| "opposite_directions DOWN = UP"
| "opposite_directions LEFT = RIGHT"
| "opposite_directions RIGHT = LEFT"

definition get_movement :: "Game \<Rightarrow> string \<Rightarrow> nat \<times> nat \<Rightarrow> error + Game" where
  "get_movement g key rnd =
     (if lower key \<notin> set [''w'', ''a'', ''s'', ''d''] then Inr g
      else case CONTROLS (lower key) of
             None \<Rightarrow> Inl KeyError
           | Some new_direction \<Rightarrow>
               if new_direction = opposite_directions (direction (snake g)) then Inr g
               else if new_direction = direction (snake g) then Inr g
               else move g (Some new_direction) rnd)"

subsection \<open>Games\<close>

text \<open>
  A game is a \<open>Game\<close> object made by \<open>Game(w, h)\<close> and then acted on by calls of its
  methods, each with the values the random generator supplies during the call. (The
  driver loop of \<open>main.py\<close> calls \<open>move()\<close> and \<open>get_movement(key)\<close> only.) \<open>run\<close>
  performs a list of calls and stops at the first exception.
\<close>

datatype call =
    Move "Direction option"
  | GetMovement string
  | ValidateDirection Point
  | SpawnApple
  | UpdateScore

fun exec :: "Game \<Rightarrow> call \<Rightarrow> nat \<times> nat \<Rightarrow> error + Game" where
  "exec g (Move d) rnd = move g d rnd"
| "exec g (GetMovement key) rnd = get_movement g key rnd"
| "exec g (ValidateDirection p) rnd = validate_direction g p rnd"
| "exec g SpawnApple rnd = Inr (spawn_apple g rnd)"
| "exec g UpdateScore rnd = Inr (update_score g)"

fun run :: "Game \<Rightarrow> (call \<times> (nat \<times> nat)) list \<Rightarrow> error + Game" where
  "run g [] = Inr g"
| "run g ((c, rnd) # cs) = (case exec g c rnd of Inl e \<Rightarrow> Inl e | Inr g' \<Rightarrow> run g' cs)"

text \<open>
  The calls that consume the apple. \<open>eats g p\<close> is the condition under which
  \<open>validate_direction g p\<close> takes its third branch; \<open>move\<close> validates the head plus
  the direction vector; \<open>get_movement\<close> moves when the key is accepted.
\<close>

definition eats :: "Game \<Rightarrow> Point \<Rightarrow> bool" where
  "eats g p \<longleftrightarrow>
     \<not> (x p \<le> 0 \<or> x p \<ge> height g - 1 \<or> y p \<le> 0 \<or> y p \<ge> width g - 1)
     \<and> \<not> list_ex (\<lambda>b. x b = x p \<and> y b = y p) (butlast (body (snake g)))
     \<and> p = position (apple g)"

definition move_eats :: "Game \<Rightarrow> Direction option \<Rightarrow> bool" where
  "move_eats g d \<longleftrightarrow>
     body (snake g) \<noteq> []
     \<and> eats g (Point_add (last (body (snake g)))
                 (DIRECTION_VECTORS (case d of None \<Rightarrow> direction (snake g) | Some d' \<Rightarrow> d')))"

fun call_eats :: "Game \<Rightarrow> call \<Rightarrow> bool" where
  "call_eats g (Move d) = move_eats g d"
| "call_eats g (GetMovement key) =
     (case CONTROLS (lower key) of
        None \<Rightarrow> False
      | Some nd \<Rightarrow> nd \<noteq> opposite_directions (direction (snake g))
                   \<and> nd \<noteq> direction (snake g) \<and> move_eats g (Some nd))"
| "call_eats g (ValidateDirection p) = eats g p"
| "call_eats g SpawnApple = False"
| "call_eats g UpdateScore = False"

subsection \<open>States used as examples\<close>

text \<open>
  \<open>apple_ahead\<close> is the initial state with the apple on the cell below the head.
  \<open>wall_approach\<close> is the state of a 44 by 44 game after the key \<open>a\<close> and one
  timed move: the snake heads left and its head is one cell from the left wall.
  \<open>wall_hit\<close> is the state one more move produces.
\<close>

definition apple_ahead :: Game where
  "apple_ahead = (Game_init 44 44)\<lparr>apple := \<lparr>position = \<lparr>x = 5, y = 3\<rparr>\<rparr>\<rparr>"

definition wall_approach :: Game where
  "wall_approach =
     \<lparr>height = 44, width = 44, speed = 1 / 2, score = 0, game_over = False,
      snake = \<lparr>body = [\<lparr>x = 3, y = 3\<rparr>, \<lparr>x = 4, y = 3\<rparr>, \<lparr>x = 4, y = 2\<rparr>, \<lparr>x = 4, y = 1\<rparr>],
               direction = LEFT\<rparr>,
      apple = \<lparr>position = \<lparr>x = 20, y = 20\<rparr>\<rparr>,
      out = [CursorTo 2 4, Put Blank, CursorTo 3 4, Put BodyGlyph,
             CursorTo 4 4, Put BodyGlyph, CursorTo 5 4, Put BodyGlyph,
             CursorTo 5 3, Put HeadGlyph, CursorTo 3 4, Put Blank,
             CursorTo 4 4, Put BodyGlyph, CursorTo 5 4, Put BodyGlyph,
             CursorTo 5 3, Put BodyGlyph, CursorTo 5 2, Put HeadGlyph]\<rparr>"

definition wall_hit :: Game where
  "wall_hit =
     wall_approach
       \<lparr>game_over := True,
        snake := \<lparr>body = [\<lparr>x = 4, y = 3\<rparr>, \<lparr>x = 4, y = 2\<rparr>, \<lparr>x = 4, y = 1\<rparr>, \<lparr>x = 4, y = 0\<rparr>],
                  direction = LEFT\<rparr>,
        out := out wall_approach @
               [CursorTo 4 4, Put Blank, CursorTo 5 4, Put BodyGlyph,
                CursorTo 5 3, Put BodyGlyph, CursorTo 5 2, Put BodyGlyph,
                CursorTo 5 1, Put HeadGlyph]\<rparr>"

section \<open>Properties\<close>

subsection \<open>Rounding to binary64\<close>

text \<open>
  \<open>ilog2\<close> is the binary exponent of a positive rational. From its bounds follow the
  two facts about \<open>round_binary64\<close> that the speed invariant needs: on positive
  arguments it is monotone, and it leaves its own results unchanged (a result is a
  binary64 number).
\<close>

lemma of_int_le_pow2: "(n::int) \<le> 2 ^ k \<Longrightarrow> rat_of_int n \<le> 2 ^ k"
  by simp

lemma pow2_le_of_int: "2 ^ k \<le> (n::int) \<Longrightarrow> (2::rat) ^ k \<le> of_int n"
  by simp

lemma ilog2_lower:
  assumes "0 < q"
  shows "2 powi (ilog2 q) \<le> q"
proof (cases "1 \<le> q")
  case True
  then have n: "0 < \<lfloor>q\<rfloor>" by simp
  from bitlen_bounds [OF n] have "2 ^ nat (bitlen \<lfloor>q\<rfloor> - 1) \<le> \<lfloor>q\<rfloor>" by simp
  then have "(2::rat) ^ nat (bitlen \<lfloor>q\<rfloor> - 1) \<le> of_int \<lfloor>q\<rfloor>"
    by (rule pow2_le_of_int)
  also have "\<dots> \<le> q" by (rule of_int_floor_le)
  finally have "(2::rat) ^ nat (bitlen \<lfloor>q\<rfloor> - 1) \<le> q" .
  moreover have "0 \<le> bitlen \<lfloor>q\<rfloor> - 1"
    using n bitlen_eq_zero_iff [of "\<lfloor>q\<rfloor>"] bitlen_nonneg [of "\<lfloor>q\<rfloor>"] by linarith
  ultimately show ?thesis
    using True by (simp add: ilog2_def power_int_def)
next
  case False
  let ?n = "\<lceil>1 / q\<rceil>"
  let ?k = "bitlen (?n - 1)"
  from False assms have "1 < 1 / q" by simp
  then have n: "0 < ?n - 1" by (simp add: less_ceiling_iff)
  from bitlen_bounds [OF n] have "?n - 1 < 2 ^ nat ?k" by simp
  then have "?n \<le> 2 ^ nat ?k" by simp
  then have "rat_of_int ?n \<le> 2 ^ nat ?k"
    by (rule of_int_le_pow2)
  with le_of_int_ceiling [of "1 / q"] have "1 / q \<le> 2 ^ nat ?k"
    by (rule order_trans)
  then have "1 \<le> 2 ^ nat ?k * q"
    using assms by (simp add: field_simps)
  then have "1 / 2 ^ nat ?k \<le> q"
    by (simp add: field_simps)
  moreover have "(2::rat) powi (- ?k) = 1 / 2 ^ nat ?k"
    using bitlen_nonneg [of "?n - 1"] by (simp add: power_int_def field_simps)
  ultimately show ?thesis
    using False by (simp add: ilog2_def)
qed

lemma ilog2_upper:
  assumes "0 < q"
  shows "q < 2 powi (ilog2 q + 1)"
proof (cases "1 \<le> q")
  case True
  then have n: "0 < \<lfloor>q\<rfloor>" by simp
  have k: "0 \<le> bitlen \<lfloor>q\<rfloor> - 1"
    using n bitlen_eq_zero_iff [of "\<lfloor>q\<rfloor>"] bitlen_nonneg [of "\<lfloor>q\<rfloor>"] by linarith
  from bitlen_bounds [OF n] have "\<lfloor>q\<rfloor> < 2 ^ nat (bitlen \<lfloor>q\<rfloor>)" by simp
  then have "\<lfloor>q\<rfloor> + 1 \<le> 2 ^ nat (bitlen \<lfloor>q\<rfloor>)" by simp
  then have "rat_of_int (\<lfloor>q\<rfloor> + 1) \<le> 2 ^ nat (bitlen \<lfloor>q\<rfloor>)"
    by (rule of_int_le_pow2)
  moreover have "q < rat_of_int (\<lfloor>q\<rfloor> + 1)"
    by linarith
  ultimately have "q < 2 ^ nat (bitlen \<lfloor>q\<rfloor>)" by (rule less_le_trans [rotated])
  then show ?thesis
    using True k by (simp add: ilog2_def power_int_def)
next
  case False
  let ?n = "\<lceil>1 / q\<rceil>"
  let ?k = "bitlen (?n - 1)"
  from False assms have "1 < 1 / q" by simp
  then have n: "0 < ?n - 1" by (simp add: less_ceiling_iff)
  have k: "1 \<le> ?k"
    using n bitlen_eq_zero_iff [of "?n - 1"] bitlen_nonneg [of "?n - 1"] by linarith
  from bitlen_bounds [OF n] have "2 ^ nat (?k - 1) \<le> ?n - 1" by simp
  then have "(2::rat) ^ nat (?k - 1) \<le> of_int (?n - 1)"
    by (rule pow2_le_of_int)
  moreover have "rat_of_int (?n - 1) < 1 / q"
    by linarith
  ultimately have "2 ^ nat (?k - 1) < 1 / q" by (rule le_less_trans)
  then have "2 ^ nat (?k - 1) * q < 1"
    using assms by (simp add: field_simps)
  then have "q < 1 / 2 ^ nat (?k - 1)"
    by (simp add: field_simps)
  moreover have "(2::rat) powi (- ?k + 1) = 1 / 2 ^ nat (?k - 1)"
    using k by (simp add: power_int_def field_simps)
  ultimately show ?thesis
    using False by (simp add: ilog2_def)
qed


lemma ilog2_less:
  assumes "0 < q" and "q < 2 powi e"
  shows "ilog2 q < e"
proof (rule ccontr)
  assume "\<not> ilog2 q < e"
  then have "e \<le> ilog2 q" by simp
  then have "(2::rat) powi e \<le> 2 powi (ilog2 q)"
    by (rule power_int_increasing) simp
  also have "\<dots> \<le> q" using assms(1) by (rule ilog2_lower)
  finally show False using assms(2) by simp
qed

lemma ilog2_ge:
  assumes "0 < q" and "2 powi e \<le> q"
  shows "e \<le> ilog2 q"
proof (rule ccontr)
  assume "\<not> e \<le> ilog2 q"
  then have "ilog2 q + 1 \<le> e" by simp
  then have "(2::rat) powi (ilog2 q + 1) \<le> 2 powi e"
    by (rule power_int_increasing) simp
  with assms(2) have "2 powi (ilog2 q + 1) \<le> q" by simp
  with ilog2_upper [OF assms(1)] show False by simp
qed

lemma ilog2_unique:
  assumes "0 < q" and "2 powi e \<le> q" and "q < 2 powi (e + 1)"
  shows "ilog2 q = e"
  using ilog2_less [OF assms(1,3)] ilog2_ge [OF assms(1,2)] by simp

lemma ilog2_mono:
  assumes "0 < a" and "a \<le> b"
  shows "ilog2 a \<le> ilog2 b"
proof -
  have "2 powi (ilog2 a) \<le> a" using assms(1) by (rule ilog2_lower)
  with assms(2) have "2 powi (ilog2 a) \<le> b" by simp
  moreover have "0 < b" using assms by simp
  ultimately show ?thesis by (intro ilog2_ge)
qed

lemma round_half_even_of_int: "round_half_even (of_int k) = k"
  by (simp add: round_half_even_def)

lemma round_half_even_floor: "\<lfloor>q\<rfloor> \<le> round_half_even q"
  by (simp add: round_half_even_def Let_def)

lemma round_half_even_floor1: "round_half_even q \<le> \<lfloor>q\<rfloor> + 1"
  by (simp add: round_half_even_def Let_def)

lemma round_half_even_mono:
  assumes "a \<le> b"
  shows "round_half_even a \<le> round_half_even b"
proof (cases "\<lfloor>a\<rfloor> = \<lfloor>b\<rfloor>")
  case True
  with assms have "a - of_int \<lfloor>b\<rfloor> \<le> b - of_int \<lfloor>b\<rfloor>" by simp
  with True show ?thesis
    by (auto simp: round_half_even_def Let_def)
next
  case False
  moreover have "\<lfloor>a\<rfloor> \<le> \<lfloor>b\<rfloor>" using assms by (rule floor_mono)
  ultimately have "\<lfloor>a\<rfloor> + 1 \<le> \<lfloor>b\<rfloor>" by simp
  with round_half_even_floor1 [of a] round_half_even_floor [of b]
  show ?thesis by linarith
qed

lemma round_half_even_ge: "of_int k \<le> q \<Longrightarrow> k \<le> round_half_even q"
  using round_half_even_mono [of "of_int k" q] by (simp add: round_half_even_of_int)

lemma round_half_even_le: "q \<le> of_int k \<Longrightarrow> round_half_even q \<le> k"
  using round_half_even_mono [of q "of_int k"] by (simp add: round_half_even_of_int)

lemma ulp_pos: "0 < ulp q"
  by (simp add: ulp_def)

lemma pow2_split53: "(2::rat) powi (e + 1) = 2 ^ 53 * 2 powi (e - 52)"
proof -
  have "(2::rat) powi ((e - 52) + 53) = 2 powi (e - 52) * 2 powi 53"
    by (rule power_int_add) simp
  then show ?thesis by (simp add: algebra_simps)
qed

lemma pow2_split52: "(2::rat) powi e = 2 ^ 52 * 2 powi (e - 52)"
proof -
  have "(2::rat) powi ((e - 52) + 52) = 2 powi (e - 52) * 2 powi 52"
    by (rule power_int_add) simp
  then show ?thesis by (simp add: algebra_simps)
qed

lemma ulp_positive_arg: "0 < q \<Longrightarrow> ulp q = 2 powi (max (ilog2 q) (- 1022) - 52)"
  by (simp add: ulp_def)

lemma below_top:
  assumes "0 < q"
  shows "q < 2 ^ 53 * ulp q"
proof -
  have "q < 2 powi (ilog2 q + 1)" using assms by (rule ilog2_upper)
  also have "\<dots> \<le> 2 powi (max (ilog2 q) (- 1022) + 1)"
    by (rule power_int_increasing) simp_all
  also have "\<dots> = 2 ^ 53 * ulp q"
    using assms by (simp only: pow2_split53 ulp_positive_arg)
  finally show ?thesis .
qed

lemma above_bottom:
  assumes "0 < q" and "- 1022 \<le> ilog2 q"
  shows "2 ^ 52 * ulp q \<le> q"
proof -
  have "max (ilog2 q) (- 1022) = ilog2 q" using assms(2) by simp
  then have "2 ^ 52 * ulp q = 2 powi (ilog2 q)"
    using assms(1) pow2_split52 [of "ilog2 q"] by (simp only: ulp_positive_arg)
  then show ?thesis using ilog2_lower [OF assms(1)] by simp
qed

lemma significand_le:
  assumes "0 < q"
  shows "round_half_even (q / ulp q) \<le> 2 ^ 53"
proof -
  have "q / ulp q \<le> 2 ^ 53"
    using below_top [OF assms] ulp_pos [of q] by (simp add: field_simps)
  then have "q / ulp q \<le> rat_of_int (2 ^ 53)" by simp
  then show ?thesis by (rule round_half_even_le)
qed

lemma significand_ge:
  assumes "0 < q" and "- 1022 \<le> ilog2 q"
  shows "2 ^ 52 \<le> round_half_even (q / ulp q)"
proof -
  have "2 ^ 52 \<le> q / ulp q"
    using above_bottom [OF assms] ulp_pos [of q] by (simp add: field_simps)
  then have "rat_of_int (2 ^ 52) \<le> q / ulp q" by simp
  then show ?thesis by (rule round_half_even_ge)
qed

lemma significand_nonneg:
  assumes "0 < q"
  shows "0 \<le> round_half_even (q / ulp q)"
proof -
  have "rat_of_int 0 \<le> q / ulp q"
    using assms ulp_pos [of q] by simp
  then show ?thesis by (rule round_half_even_ge)
qed


lemma round_binary64_positive_arg:
  "0 < q \<Longrightarrow> round_binary64 q = of_int (round_half_even (q / ulp q)) * ulp q"
  by (simp add: round_binary64_def)

lemma round_binary64_nonneg:
  assumes "0 < q"
  shows "0 \<le> round_binary64 q"
  using significand_nonneg [OF assms] ulp_pos [of q]
  by (simp add: round_binary64_positive_arg [OF assms])

lemma round_binary64_mono:
  assumes "0 < a" and "a \<le> b"
  shows "round_binary64 a \<le> round_binary64 b"
proof -
  let ?Ea = "max (ilog2 a) (- 1022)"
  let ?Eb = "max (ilog2 b) (- 1022)"
  have b: "0 < b" using assms by simp
  have ua: "ulp a = 2 powi (?Ea - 52)" using assms(1) by (rule ulp_positive_arg)
  have ub: "ulp b = 2 powi (?Eb - 52)" using b by (rule ulp_positive_arg)
  have "ilog2 a \<le> ilog2 b" using assms by (rule ilog2_mono)
  then have le: "?Ea \<le> ?Eb" by simp
  show ?thesis
  proof (cases "?Ea = ?Eb")
    case True
    then have u: "ulp a = ulp b" by (simp only: ua ub)
    have "a / ulp b \<le> b / ulp b"
      using assms(2) ulp_pos [of b] by (simp add: divide_right_mono)
    then have "round_half_even (a / ulp b) \<le> round_half_even (b / ulp b)"
      by (rule round_half_even_mono)
    then have "rat_of_int (round_half_even (a / ulp b)) \<le> of_int (round_half_even (b / ulp b))"
      by simp
    then have "of_int (round_half_even (a / ulp b)) * ulp b
               \<le> of_int (round_half_even (b / ulp b)) * ulp b"
      using ulp_pos [of b] by (simp add: mult_right_mono)
    then show ?thesis
      by (simp only: round_binary64_positive_arg [OF assms(1)] round_binary64_positive_arg [OF b] u)
  next
    case False
    with le have lt: "?Ea + 1 \<le> ?Eb" by simp
    then have nb: "- 1022 \<le> ilog2 b" and eb: "?Eb = ilog2 b" by simp_all
    have "rat_of_int (round_half_even (a / ulp a)) \<le> of_int (2 ^ 53)"
      using significand_le [OF assms(1)] by (simp only: of_int_le_iff)
    then have "of_int (round_half_even (a / ulp a)) * ulp a \<le> of_int (2 ^ 53) * ulp a"
      using ulp_pos [of a] by (simp add: mult_right_mono)
    then have "round_binary64 a \<le> 2 ^ 53 * ulp a"
      by (simp add: round_binary64_positive_arg [OF assms(1)])
    also have "\<dots> = 2 powi (?Ea + 1)"
      by (simp only: pow2_split53 ua)
    also have "\<dots> \<le> 2 powi ?Eb"
      using lt by (rule power_int_increasing) simp
    also have "\<dots> = 2 ^ 52 * ulp b"
      using pow2_split52 [of ?Eb] by (simp only: ub)
    also have "\<dots> \<le> round_binary64 b"
    proof -
      have "rat_of_int (2 ^ 52) \<le> of_int (round_half_even (b / ulp b))"
        using significand_ge [OF b nb] by (simp only: of_int_le_iff)
      then have "of_int (2 ^ 52) * ulp b \<le> of_int (round_half_even (b / ulp b)) * ulp b"
        using ulp_pos [of b] by (simp add: mult_right_mono)
      then show ?thesis
        by (simp add: round_binary64_positive_arg [OF b])
    qed
    finally show ?thesis .
  qed
qed

lemma ulp_of_multiple:
  assumes "0 < k" and "k < 2 ^ 53" and "- 1022 \<le> e" and "2 ^ 52 \<le> k \<or> e = - 1022"
  shows "ulp (of_int k * 2 powi (e - 52)) = 2 powi (e - 52)"
proof -
  let ?u = "(2::rat) powi (e - 52)"
  let ?r = "rat_of_int k * ?u"
  have u: "0 < ?u" by simp
  have r: "0 < ?r" using assms(1) u by simp
  have "rat_of_int k < of_int (2 ^ 53)"
    using assms(2) by (simp only: of_int_less_iff)
  then have "?r < of_int (2 ^ 53) * ?u"
    using u by (simp add: mult_strict_right_mono)
  also have "\<dots> = 2 powi (e + 1)"
    by (simp add: pow2_split53)
  finally have up: "?r < 2 powi (e + 1)" .
  then have "ilog2 ?r < e + 1" using r by (intro ilog2_less)
  then have le: "ilog2 ?r \<le> e" by simp
  have "max (ilog2 ?r) (- 1022) = e"
  proof (cases "2 ^ 52 \<le> k")
    case True
    then have "rat_of_int (2 ^ 52) \<le> of_int k"
      by (simp only: of_int_le_iff)
    then have "of_int (2 ^ 52) * ?u \<le> ?r"
      using u by (simp add: mult_right_mono)
    moreover have "2 powi e = of_int (2 ^ 52) * ?u"
      using pow2_split52 [of e] by simp
    ultimately have "2 powi e \<le> ?r" by (simp only:)
    then have "e \<le> ilog2 ?r" using r by (intro ilog2_ge)
    with le assms(3) show ?thesis by simp
  next
    case False
    with assms(4) have "e = - 1022" by simp
    with le show ?thesis by simp
  qed
  then show ?thesis
    using r by (simp only: ulp_positive_arg)
qed

lemma ulp_of_power:
  assumes "- 1022 \<le> e"
  shows "ulp (2 powi e) = 2 powi (e - 52)"
proof -
  have "(2::rat) powi e < 2 powi (e + 1)"
    by (rule power_int_strict_increasing) simp_all
  then have "ilog2 (2 powi e) = e"
    by (intro ilog2_unique) simp_all
  then have "max (ilog2 (2 powi e)) (- 1022) = e"
    using assms by simp
  then show ?thesis
    by (simp add: ulp_positive_arg)
qed

lemma round_binary64_idem:
  assumes "0 < q"
  shows "round_binary64 (round_binary64 q) = round_binary64 q"
proof -
  let ?e = "max (ilog2 q) (- 1022)"
  let ?u = "(2::rat) powi (?e - 52)"
  let ?k = "round_half_even (q / ulp q)"
  have u: "ulp q = ?u" using assms by (rule ulp_positive_arg)
  have r: "round_binary64 q = of_int ?k * ?u"
    using assms by (simp only: round_binary64_positive_arg u)
  have k0: "0 \<le> ?k" using assms by (rule significand_nonneg)
  have k53: "?k \<le> 2 ^ 53" using assms by (rule significand_le)
  consider (zero) "?k = 0" | (top) "?k = 2 ^ 53" | (mid) "0 < ?k" "?k < 2 ^ 53"
    using k0 k53 by linarith
  then show ?thesis
  proof cases
    case zero
    then have "round_binary64 q = 0" by (simp add: r)
    then show ?thesis by (simp add: round_binary64_def)
  next
    case top
    then have "round_binary64 q = of_int (2 ^ 53) * ?u" by (simp only: r)
    also have "\<dots> = 2 powi (?e + 1)" by (simp add: pow2_split53)
    finally have rq: "round_binary64 q = 2 powi (?e + 1)" .
    have "ulp (2 powi (?e + 1)) = 2 powi (?e + 1 - 52)"
      by (rule ulp_of_power) simp
    moreover have "(2::rat) powi (?e + 1) / 2 powi (?e + 1 - 52) = of_int (2 ^ 52)"
      using pow2_split52 [of "?e + 1"] by simp
    ultimately have "round_half_even (2 powi (?e + 1) / ulp (2 powi (?e + 1))) = 2 ^ 52"
      by (simp only: round_half_even_of_int)
    then have "round_binary64 (2 powi (?e + 1))
               = of_int (2 ^ 52) * 2 powi (?e + 1 - 52)"
      using \<open>ulp (2 powi (?e + 1)) = 2 powi (?e + 1 - 52)\<close>
      by (simp add: round_binary64_def)
    also have "\<dots> = 2 powi (?e + 1)"
      using pow2_split52 [of "?e + 1"] by simp
    finally show ?thesis by (simp only: rq)
  next
    case mid
    have "2 ^ 52 \<le> ?k \<or> ?e = - 1022"
    proof (cases "- 1022 \<le> ilog2 q")
      case True
      with assms have "2 ^ 52 \<le> ?k" by (rule significand_ge)
      then show ?thesis ..
    next
      case False
      then show ?thesis by simp
    qed
    with mid have ur: "ulp (of_int ?k * ?u) = ?u"
      by (intro ulp_of_multiple) simp_all
    have pos: "0 < rat_of_int ?k * ?u" using mid(1) by simp
    have "rat_of_int ?k * ?u / ?u = of_int ?k" by simp
    then have "round_half_even (of_int ?k * ?u / ulp (of_int ?k * ?u)) = ?k"
      by (simp only: ur round_half_even_of_int)
    then have "round_binary64 (of_int ?k * ?u) = of_int ?k * ?u"
      using pos by (simp only: round_binary64_positive_arg ur)
    then show ?thesis by (simp only: r)
  qed
qed

subsection \<open>Auxiliary facts\<close>

lemma head_nonempty: "body s \<noteq> [] \<Longrightarrow> head s = Inr (last (body s))"
  by (cases "body s") (simp_all add: head_def)

lemma tail_nonempty: "body s \<noteq> [] \<Longrightarrow> tail s = Inr (hd (body s))"
  by (cases "body s") (simp_all add: tail_def)

lemma pop0_nonempty: "xs \<noteq> [] \<Longrightarrow> pop0 xs = Inr (tl xs)"
  by (cases xs) (simp_all add: pop0_def)

lemma move_empty: "body (snake g) = [] \<Longrightarrow> move g d rnd = Inl IndexError"
  by (simp add: move_def head_def)

lemma list_ex_butlast_nth:
  "list_ex P (butlast xs) \<longleftrightarrow> (\<exists>i. i + 1 < length xs \<and> P (xs ! i))"
proof
  assume "list_ex P (butlast xs)"
  then obtain i where i: "i < length (butlast xs)" "P (butlast xs ! i)"
    by (auto simp: list_ex_length)
  then have "i + 1 < length xs" "P (xs ! i)"
    by (simp_all add: nth_butlast)
  then show "\<exists>i. i + 1 < length xs \<and> P (xs ! i)" by blast
next
  assume "\<exists>i. i + 1 < length xs \<and> P (xs ! i)"
  then obtain i where i: "i + 1 < length xs" "P (xs ! i)" by blast
  then have "i < length (butlast xs)" "P (butlast xs ! i)"
    by (simp_all add: nth_butlast)
  then show "list_ex P (butlast xs)"
    by (auto simp: list_ex_length)
qed

lemma lower_keys:
  "lower ''w'' = ''w''" "lower ''s'' = ''s''" "lower ''a'' = ''a''" "lower ''d'' = ''d''"
  "lower ''W'' = ''w''"
  by code_simp+

lemma float_lit_half: "float_lit (5 / 10) = 1 / 2"
  by code_simp

lemma float_lit_half': "float_lit (1 / 2) = 1 / 2"
  by code_simp

lemma float_lit_005: "float_lit (5 / 100) = 3602879701896397 / 2 ^ 56"
  by code_simp

lemma float_lit_09: "float_lit (9 / 10) = 8106479329266893 / 2 ^ 53"
  by code_simp

lemma py_max_max: "py_max a b = max a b"
  by (simp add: py_max_def max_def)

lemma round_binary64_005:
  "round_binary64 (3602879701896397 / 2 ^ 56) = 3602879701896397 / 2 ^ 56"
  by code_simp

lemma float_lit_005': "float_lit (1 / 20) = 3602879701896397 / 2 ^ 56"
  by code_simp

lemma round_binary64_half: "round_binary64 (1 / 2) = 1 / 2"
  by code_simp

lemma CONTROLS_None: "CONTROLS k = None \<longleftrightarrow> k \<notin> set [''w'', ''a'', ''s'', ''d'']"
  by (simp add: CONTROLS_def)

lemma fmul_half_09: "fmul (1 / 2) (8106479329266893 / 2 ^ 53) = 8106479329266893 / 2 ^ 54"
  by code_simp

text \<open>The three ways through \<open>validate_direction\<close>.\<close>

lemma validate_direction_stop:
  assumes "x nh \<le> 0 \<or> x nh \<ge> height g - 1 \<or> y nh \<le> 0 \<or> y nh \<ge> width g - 1
           \<or> list_ex (\<lambda>b. x b = x nh \<and> y b = y nh) (butlast (body (snake g)))"
  shows "validate_direction g nh rnd = Inr (g\<lparr>game_over := True\<rparr>)"
  using assms by (auto simp: validate_direction_def)

lemma validate_direction_pass:
  assumes "\<not> (x nh \<le> 0 \<or> x nh \<ge> height g - 1 \<or> y nh \<le> 0 \<or> y nh \<ge> width g - 1)"
    and "\<not> list_ex (\<lambda>b. x b = x nh \<and> y b = y nh) (butlast (body (snake g)))"
    and "nh \<noteq> position (apple g)"
  shows "validate_direction g nh rnd = Inr g"
  using assms by (auto simp: validate_direction_def)

lemma validate_direction_eat:
  assumes "\<not> (x nh \<le> 0 \<or> x nh \<ge> height g - 1 \<or> y nh \<le> 0 \<or> y nh \<ge> width g - 1)"
    and "\<not> list_ex (\<lambda>b. x b = x nh \<and> y b = y nh) (butlast (body (snake g)))"
    and "nh = position (apple g)"
    and "body (snake g) \<noteq> []"
  shows "validate_direction g nh rnd =
     Inr (g\<lparr>speed := py_max (float_lit (5 / 100)) (fmul (speed g) (float_lit (9 / 10))),
            score := score g + 1,
            snake := \<lparr>body = \<lparr>x = x (hd (body (snake g))) + 1, y = y (hd (body (snake g))) + 1\<rparr>
                               # body (snake g),
                      direction = direction (snake g)\<rparr>,
            apple := \<lparr>position = \<lparr>x = randint 1 40 (fst rnd), y = randint 1 40 (snd rnd)\<rparr>\<rparr>,
            out := out g @ [CursorTo (randint 1 40 (fst rnd) + 1) (randint 1 40 (snd rnd) + 1),
                            Put AppleGlyph, CursorTo 1 4, Put (ScoreText (score g + 1))]\<rparr>)"
  using assms
  by (auto simp: validate_direction_def spawn_apple_def print_def update_score_def Let_def
      tail_nonempty)

text \<open>
  What \<open>move\<close> does after \<open>validate_direction\<close> has returned: the new head is appended,
  the first element is removed, the heading is stored.
\<close>

lemma move_after_validate:
  assumes "body (snake g) \<noteq> []"
    and "validate_direction g
           (Point_add (last (body (snake g)))
              (DIRECTION_VECTORS (case d of None \<Rightarrow> direction (snake g) | Some d' \<Rightarrow> d')))
           rnd = Inr g1"
  shows "\<exists>g'. move g d rnd = Inr g'
           \<and> body (snake g') = tl (body (snake g1) @
               [Point_add (last (body (snake g)))
                  (DIRECTION_VECTORS (case d of None \<Rightarrow> direction (snake g) | Some d' \<Rightarrow> d'))])
           \<and> direction (snake g') = (case d of None \<Rightarrow> direction (snake g) | Some d' \<Rightarrow> d')
           \<and> game_over g' = game_over g1 \<and> apple g' = apple g1 \<and> score g' = score g1
           \<and> speed g' = speed g1 \<and> height g' = height g1 \<and> width g' = width g1"
  using assms
  by (simp add: move_def head_nonempty tail_nonempty pop0_nonempty print_def Let_def)

subsection \<open>Walls\<close>

text \<open>
  C2. Whenever the new head lies on or beyond an outer row or column
  (\<open>x \<le> 0\<close>, \<open>x \<ge> height - 1\<close>, \<open>y \<le> 0\<close> or \<open>y \<ge> width - 1\<close>),
  \<open>validate_direction\<close> returns the state it was given with \<open>game_over\<close> set and nothing
  else changed: the apple, the score, the speed and the snake's body are as before.
\<close>

theorem validate_direction_wall:
  assumes "x new_head \<le> 0 \<or> x new_head \<ge> height g - 1
           \<or> y new_head \<le> 0 \<or> y new_head \<ge> width g - 1"
  shows "validate_direction g new_head rnd = Inr (g\<lparr>game_over := True\<rparr>)"
  using assms by (simp add: validate_direction_def)

theorem validate_direction_wall_witness:
  "(x \<lparr>x = 4, y = 43\<rparr> \<le> 0 \<or> x \<lparr>x = 4, y = 43\<rparr> \<ge> height (Game_init 44 44) - 1
     \<or> y \<lparr>x = 4, y = 43\<rparr> \<le> 0 \<or> y \<lparr>x = 4, y = 43\<rparr> \<ge> width (Game_init 44 44) - 1)
   \<and> validate_direction (Game_init 44 44) \<lparr>x = 4, y = 43\<rparr> (0, 0)
       = Inr ((Game_init 44 44)\<lparr>game_over := True\<rparr>)"
  using validate_direction_wall [of "\<lparr>x = 4, y = 43\<rparr>" "Game_init 44 44" "(0, 0)"]
  by (simp add: Game_init_def)

subsection \<open>Turning\<close>

text \<open>
  C6. \<open>opposite_directions\<close> is an involution. A key whose direction is the opposite of
  the snake's heading is rejected by \<open>get_movement\<close>: the state, and with it the heading
  and the body, is returned as it was, and nothing is printed. A key whose direction is
  the heading itself is answered in the same way.
\<close>

theorem opposite_rejected:
  "opposite_directions (opposite_directions d) = d
   \<and> (CONTROLS (lower key) = Some (opposite_directions (direction (snake g)))
        \<longrightarrow> get_movement g key rnd = Inr g)
   \<and> (CONTROLS (lower key) = Some (direction (snake g))
        \<longrightarrow> get_movement g key rnd = Inr g)"
  by (cases d) (simp_all add: get_movement_def)

theorem opposite_rejected_witness:
  "CONTROLS (lower ''W'') = Some (opposite_directions (direction (snake (Game_init 44 44))))
   \<and> get_movement (Game_init 44 44) ''W'' (0, 0) = Inr (Game_init 44 44)
   \<and> CONTROLS (lower ''s'') = Some (direction (snake (Game_init 44 44)))
   \<and> get_movement (Game_init 44 44) ''s'' (0, 0) = Inr (Game_init 44 44)"
  using opposite_rejected [of UP "''W''" "Game_init 44 44" "(0, 0)"]
    opposite_rejected [of UP "''s''" "Game_init 44 44" "(0, 0)"]
  by (simp add: CONTROLS_def lower_keys Game_init_def)

subsection \<open>The first step of a game\<close>

text \<open>
  C9. On a 44 by 44 grid the game starts with the body
  \<open>[(1,3), (2,3), (3,3), (4,3)]\<close>, heading \<open>DOWN\<close>, the apple at \<open>(20,20)\<close>. One
  \<open>move\<close> without a direction returns; the head is then \<open>(5,3)\<close>, the old tail
  \<open>(1,3)\<close> is gone, the body has four elements and \<open>game_over\<close> is false.
\<close>

theorem initial_auto_move:
  "body (snake (Game_init 44 44))
     = [\<lparr>x = 1, y = 3\<rparr>, \<lparr>x = 2, y = 3\<rparr>, \<lparr>x = 3, y = 3\<rparr>, \<lparr>x = 4, y = 3\<rparr>]
   \<and> direction (snake (Game_init 44 44)) = DOWN
   \<and> position (apple (Game_init 44 44)) = \<lparr>x = 20, y = 20\<rparr>
   \<and> (\<exists>g'. move (Game_init 44 44) None rnd = Inr g'
         \<and> head (snake g') = Inr \<lparr>x = 5, y = 3\<rparr>
         \<and> body (snake g') = [\<lparr>x = 2, y = 3\<rparr>, \<lparr>x = 3, y = 3\<rparr>, \<lparr>x = 4, y = 3\<rparr>, \<lparr>x = 5, y = 3\<rparr>]
         \<and> \<lparr>x = 1, y = 3\<rparr> \<notin> set (body (snake g'))
         \<and> length (body (snake g')) = 4
         \<and> \<not> game_over g')"
  by (simp add: Game_init_def move_def head_def tail_def pop0_def validate_direction_def
      Point_add_def print_def)

subsection \<open>Moving into a wall\<close>

lemma wall_approach_reached:
  "\<exists>g1. get_movement (Game_init 44 44) ''a'' rnd = Inr g1 \<and> move g1 None rnd' = Inr wall_approach"
  by (simp add: get_movement_def lower_keys CONTROLS_def Game_init_def float_lit_half'
      wall_approach_def move_def head_def tail_def pop0_def validate_direction_def
      Point_add_def print_def)

text \<open>
  C3, as stated: when the next head lies in a wall cell, \<open>move\<close> sets \<open>game_over\<close> and
  leaves the body as it was. This fails in \<open>wall_approach\<close>: the next head \<open>(4,0)\<close>
  is in column 0, \<open>move\<close> sets \<open>game_over\<close>, and the body
  \<open>[(3,3), (4,3), (4,2), (4,1)]\<close> becomes \<open>[(4,3), (4,2), (4,1), (4,0)]\<close>.
\<close>

theorem move_into_wall_counterexample:
  "y (Point_add (last (body (snake wall_approach)))
        (DIRECTION_VECTORS (direction (snake wall_approach)))) \<le> 0
   \<and> move wall_approach None (0, 0) = Inr wall_hit
   \<and> game_over wall_hit
   \<and> body (snake wall_approach) = [\<lparr>x = 3, y = 3\<rparr>, \<lparr>x = 4, y = 3\<rparr>, \<lparr>x = 4, y = 2\<rparr>, \<lparr>x = 4, y = 1\<rparr>]
   \<and> body (snake wall_hit) = [\<lparr>x = 4, y = 3\<rparr>, \<lparr>x = 4, y = 2\<rparr>, \<lparr>x = 4, y = 1\<rparr>, \<lparr>x = 4, y = 0\<rparr>]
   \<and> body (snake wall_hit) \<noteq> body (snake wall_approach)"
  by (simp add: wall_approach_def wall_hit_def move_def head_def tail_def pop0_def
      validate_direction_def Point_add_def print_def)

text \<open>
  C3, amended: when the next head lies in a wall cell, \<open>move\<close> returns with
  \<open>game_over\<close> set, and it still appends the new head and removes the first element:
  the body afterwards is the body before without its first element, followed by the new
  head, so its length is the same. No growth point is inserted, and the apple, the score
  and the speed are unchanged.
\<close>

theorem move_into_wall:
  assumes "body (snake g) \<noteq> []"
    and "nd = (case d of None \<Rightarrow> direction (snake g) | Some d' \<Rightarrow> d')"
    and "new_head = Point_add (last (body (snake g))) (DIRECTION_VECTORS nd)"
    and "x new_head \<le> 0 \<or> x new_head \<ge> height g - 1
         \<or> y new_head \<le> 0 \<or> y new_head \<ge> width g - 1"
  shows "\<exists>g'. move g d rnd = Inr g'
           \<and> game_over g'
           \<and> body (snake g') = tl (body (snake g)) @ [new_head]
           \<and> length (body (snake g')) = length (body (snake g))
           \<and> direction (snake g') = nd
           \<and> apple g' = apple g \<and> score g' = score g \<and> speed g' = speed g"
proof -
  have v: "validate_direction g new_head rnd = Inr (g\<lparr>game_over := True\<rparr>)"
    using assms(4) validate_direction_stop [of new_head g rnd] by blast
  from move_after_validate [OF assms(1) v [unfolded assms(3) assms(2)]]
  obtain g' where g': "move g d rnd = Inr g'"
    "body (snake g') = tl (body (snake (g\<lparr>game_over := True\<rparr>)) @ [new_head])"
    "direction (snake g') = nd" "game_over g' = game_over (g\<lparr>game_over := True\<rparr>)"
    "apple g' = apple (g\<lparr>game_over := True\<rparr>)" "score g' = score (g\<lparr>game_over := True\<rparr>)"
    "speed g' = speed (g\<lparr>game_over := True\<rparr>)"
    unfolding assms(2,3) by blast
  have "body (snake g') = tl (body (snake g)) @ [new_head]"
    using g'(2) assms(1) by simp
  moreover have "length (tl (body (snake g)) @ [new_head]) = length (body (snake g))"
    using assms(1) by (cases "body (snake g)") simp_all
  ultimately show ?thesis
    using g' by (intro exI [of _ g']) simp
qed

theorem move_into_wall_witness:
  "\<exists>g'. move wall_approach None (0, 0) = Inr g'
         \<and> game_over g'
         \<and> body (snake g') = [\<lparr>x = 4, y = 3\<rparr>, \<lparr>x = 4, y = 2\<rparr>, \<lparr>x = 4, y = 1\<rparr>, \<lparr>x = 4, y = 0\<rparr>]"
proof -
  have "\<exists>g'. move wall_approach None (0, 0) = Inr g'
           \<and> game_over g'
           \<and> body (snake g') = tl (body (snake wall_approach)) @ [\<lparr>x = 4, y = 0\<rparr>]
           \<and> length (body (snake g')) = length (body (snake wall_approach))
           \<and> direction (snake g') = LEFT
           \<and> apple g' = apple wall_approach \<and> score g' = score wall_approach
           \<and> speed g' = speed wall_approach"
    by (rule move_into_wall) (simp_all add: wall_approach_def Point_add_def)
  then obtain g' where "move wall_approach None (0, 0) = Inr g'" "game_over g'"
    "body (snake g') = tl (body (snake wall_approach)) @ [\<lparr>x = 4, y = 0\<rparr>]"
    by blast
  then show ?thesis
    by (intro exI [of _ g']) (simp add: wall_approach_def)
qed

subsection \<open>The length of the body\<close>

text \<open>
  C1. Let \<open>new_head\<close> be the head plus the vector of the direction moved in. \<open>move\<close>
  returns, and if \<open>new_head\<close> is not the apple's position the body has the length it
  had before, whatever the collision checks found; if \<open>new_head\<close> is the apple's
  position and neither the wall check nor the self-collision check fired, the body is
  exactly one element longer.
\<close>

theorem move_length:
  assumes "body (snake g) \<noteq> []"
    and "nd = (case d of None \<Rightarrow> direction (snake g) | Some d' \<Rightarrow> d')"
    and "new_head = Point_add (last (body (snake g))) (DIRECTION_VECTORS nd)"
  shows "\<exists>g'. move g d rnd = Inr g'
     \<and> (new_head \<noteq> position (apple g)
          \<longrightarrow> length (body (snake g')) = length (body (snake g)))
     \<and> (new_head = position (apple g)
          \<and> \<not> (x new_head \<le> 0 \<or> x new_head \<ge> height g - 1
                \<or> y new_head \<le> 0 \<or> y new_head \<ge> width g - 1)
          \<and> \<not> (\<exists>i. i + 1 < length (body (snake g))
                     \<and> x (body (snake g) ! i) = x new_head
                     \<and> y (body (snake g) ! i) = y new_head)
          \<longrightarrow> length (body (snake g')) = length (body (snake g)) + 1)"
proof -
  let ?wall = "x new_head \<le> 0 \<or> x new_head \<ge> height g - 1
               \<or> y new_head \<le> 0 \<or> y new_head \<ge> width g - 1"
  let ?hit = "list_ex (\<lambda>b. x b = x new_head \<and> y b = y new_head) (butlast (body (snake g)))"
  have hit: "?hit \<longleftrightarrow> (\<exists>i. i + 1 < length (body (snake g))
                     \<and> x (body (snake g) ! i) = x new_head
                     \<and> y (body (snake g) ! i) = y new_head)"
    by (rule list_ex_butlast_nth)
  consider (stop) "?wall \<or> ?hit"
    | (pass) "\<not> ?wall" "\<not> ?hit" "new_head \<noteq> position (apple g)"
    | (eat) "\<not> ?wall" "\<not> ?hit" "new_head = position (apple g)"
    by blast
  then show ?thesis
  proof cases
    case stop
    have v: "validate_direction g new_head rnd = Inr (g\<lparr>game_over := True\<rparr>)"
      using stop validate_direction_stop [of new_head g rnd] by blast
    from move_after_validate [OF assms(1) v [unfolded assms(3) assms(2)]]
    obtain g' where g': "move g d rnd = Inr g'"
      "body (snake g') = tl (body (snake (g\<lparr>game_over := True\<rparr>)) @ [new_head])"
      unfolding assms(2,3) by blast
    have "length (body (snake g')) = length (body (snake g))"
      using g'(2) by simp
    with g'(1) stop hit show ?thesis
      by (intro exI [of _ g']) blast
  next
    case pass
    then have v: "validate_direction g new_head rnd = Inr g"
      by (rule validate_direction_pass)
    from move_after_validate [OF assms(1) v [unfolded assms(3) assms(2)]]
    obtain g' where g': "move g d rnd = Inr g'"
      "body (snake g') = tl (body (snake g) @ [new_head])"
      unfolding assms(2,3) by blast
    have "length (body (snake g')) = length (body (snake g))"
      using g'(2) by simp
    with g'(1) pass show ?thesis
      by (intro exI [of _ g']) simp
  next
    case eat
    note v = validate_direction_eat [OF eat assms(1), of rnd]
    from move_after_validate [OF assms(1) v [unfolded assms(3) assms(2)]]
    obtain g' where g': "move g d rnd = Inr g'"
      "length (body (snake g')) = length (body (snake g)) + 1"
      unfolding assms(2,3) by (auto simp del: One_nat_def)
    with eat show ?thesis
      by (intro exI [of _ g']) simp
  qed
qed

theorem move_length_witness:
  "(\<exists>g'. move (Game_init 44 44) None (0, 0) = Inr g' \<and> length (body (snake g')) = 4)
   \<and> (\<exists>g'. move apple_ahead None (0, 0) = Inr g' \<and> length (body (snake g')) = 5)"
proof
  have "body (snake (Game_init 44 44)) \<noteq> []"
    and "DOWN = (case None of None \<Rightarrow> direction (snake (Game_init 44 44)) | Some d' \<Rightarrow> d')"
    and "\<lparr>x = 5, y = 3\<rparr>
         = Point_add (last (body (snake (Game_init 44 44)))) (DIRECTION_VECTORS DOWN)"
    by (simp_all add: Game_init_def Point_add_def)
  from move_length [OF this, of "(0, 0)"]
  obtain g' where "move (Game_init 44 44) None (0, 0) = Inr g'"
    "\<lparr>x = 5, y = 3\<rparr> \<noteq> position (apple (Game_init 44 44))
       \<longrightarrow> length (body (snake g')) = length (body (snake (Game_init 44 44)))"
    by blast
  then show "\<exists>g'. move (Game_init 44 44) None (0, 0) = Inr g' \<and> length (body (snake g')) = 4"
    by (intro exI [of _ g']) (simp add: Game_init_def)
next
  have "body (snake apple_ahead) \<noteq> []"
    and "DOWN = (case None of None \<Rightarrow> direction (snake apple_ahead) | Some d' \<Rightarrow> d')"
    and "\<lparr>x = 5, y = 3\<rparr> = Point_add (last (body (snake apple_ahead))) (DIRECTION_VECTORS DOWN)"
    by (simp_all add: apple_ahead_def Game_init_def Point_add_def)
  from move_length [OF this, of "(0, 0)"]
  obtain g' where g': "move apple_ahead None (0, 0) = Inr g'"
    "\<lparr>x = 5, y = 3\<rparr> = position (apple apple_ahead)
       \<and> \<not> (x \<lparr>x = 5, y = 3\<rparr> \<le> 0 \<or> x \<lparr>x = 5, y = 3\<rparr> \<ge> height apple_ahead - 1
             \<or> y \<lparr>x = 5, y = 3\<rparr> \<le> 0 \<or> y \<lparr>x = 5, y = 3\<rparr> \<ge> width apple_ahead - 1)
       \<and> \<not> (\<exists>i. i + 1 < length (body (snake apple_ahead))
                  \<and> x (body (snake apple_ahead) ! i) = x \<lparr>x = 5, y = 3\<rparr>
                  \<and> y (body (snake apple_ahead) ! i) = y \<lparr>x = 5, y = 3\<rparr>)
       \<longrightarrow> length (body (snake g')) = length (body (snake apple_ahead)) + 1"
    by blast
  have "\<not> (\<exists>i. i + 1 < length (body (snake apple_ahead))
                  \<and> x (body (snake apple_ahead) ! i) = x \<lparr>x = 5, y = 3\<rparr>
                  \<and> y (body (snake apple_ahead) ! i) = y \<lparr>x = 5, y = 3\<rparr>)"
    using list_ex_butlast_nth [of "\<lambda>b. x b = 5 \<and> y b = 3" "body (snake apple_ahead)"]
    by (simp add: apple_ahead_def Game_init_def)
  with g' show "\<exists>g'. move apple_ahead None (0, 0) = Inr g' \<and> length (body (snake g')) = 5"
    by (intro exI [of _ g']) (simp add: apple_ahead_def Game_init_def)
qed

subsection \<open>Running into the body\<close>

text \<open>
  C4. Let the new head pass the wall check. \<open>validate_direction\<close> returns, and it sets
  \<open>game_over\<close> exactly when the new head has the coordinates of a body element other
  than the last one (the head): afterwards the flag is true if and only if it was true
  before or there is such an element. When there is one, the state returned is the
  given state with \<open>game_over\<close> set and nothing else changed.
\<close>

theorem validate_direction_self:
  assumes "\<not> (x new_head \<le> 0 \<or> x new_head \<ge> height g - 1
               \<or> y new_head \<le> 0 \<or> y new_head \<ge> width g - 1)"
    and "body (snake g) \<noteq> []"
  shows "\<exists>g'. validate_direction g new_head rnd = Inr g'
     \<and> (game_over g' \<longleftrightarrow>
          game_over g \<or> (\<exists>i. i + 1 < length (body (snake g))
                               \<and> x (body (snake g) ! i) = x new_head
                               \<and> y (body (snake g) ! i) = y new_head))
     \<and> ((\<exists>i. i + 1 < length (body (snake g))
               \<and> x (body (snake g) ! i) = x new_head
               \<and> y (body (snake g) ! i) = y new_head)
          \<longrightarrow> g' = g\<lparr>game_over := True\<rparr>)"
proof -
  let ?hit = "list_ex (\<lambda>b. x b = x new_head \<and> y b = y new_head) (butlast (body (snake g)))"
  have hit: "?hit \<longleftrightarrow> (\<exists>i. i + 1 < length (body (snake g))
                     \<and> x (body (snake g) ! i) = x new_head
                     \<and> y (body (snake g) ! i) = y new_head)"
    by (rule list_ex_butlast_nth)
  consider (stop) "?hit"
    | (pass) "\<not> ?hit" "new_head \<noteq> position (apple g)"
    | (eat) "\<not> ?hit" "new_head = position (apple g)"
    by blast
  then show ?thesis
  proof cases
    case stop
    have "validate_direction g new_head rnd = Inr (g\<lparr>game_over := True\<rparr>)"
      using stop validate_direction_stop [of new_head g rnd] by blast
    moreover have "game_over (g\<lparr>game_over := True\<rparr>)"
      by simp
    ultimately show ?thesis
      using stop hit by blast
  next
    case pass
    have "validate_direction g new_head rnd = Inr g"
      using assms(1) pass by (rule validate_direction_pass)
    then show ?thesis
      using pass(1) hit by blast
  next
    case eat
    from validate_direction_eat [OF assms(1) eat assms(2), of rnd]
    obtain g' where "validate_direction g new_head rnd = Inr g'" "game_over g' = game_over g"
      by simp
    then show ?thesis
      using eat(1) hit by blast
  qed
qed

theorem validate_direction_self_witness:
  "validate_direction (Game_init 44 44) \<lparr>x = 2, y = 3\<rparr> (0, 0)
     = Inr ((Game_init 44 44)\<lparr>game_over := True\<rparr>)
   \<and> (\<exists>g'. validate_direction (Game_init 44 44) \<lparr>x = 5, y = 3\<rparr> (0, 0) = Inr g'
            \<and> \<not> game_over g')"
proof
  have a: "\<not> (x \<lparr>x = 2, y = 3\<rparr> \<le> 0 \<or> x \<lparr>x = 2, y = 3\<rparr> \<ge> height (Game_init 44 44) - 1
               \<or> y \<lparr>x = 2, y = 3\<rparr> \<le> 0 \<or> y \<lparr>x = 2, y = 3\<rparr> \<ge> width (Game_init 44 44) - 1)"
    and b: "body (snake (Game_init 44 44)) \<noteq> []"
    by (simp_all add: Game_init_def)
  have c: "\<exists>i. i + 1 < length (body (snake (Game_init 44 44)))
               \<and> x (body (snake (Game_init 44 44)) ! i) = x \<lparr>x = 2, y = 3\<rparr>
               \<and> y (body (snake (Game_init 44 44)) ! i) = y \<lparr>x = 2, y = 3\<rparr>"
    by (rule exI [of _ 1]) (simp add: Game_init_def)
  from validate_direction_self [OF a b, of "(0, 0)"] c
  show "validate_direction (Game_init 44 44) \<lparr>x = 2, y = 3\<rparr> (0, 0)
          = Inr ((Game_init 44 44)\<lparr>game_over := True\<rparr>)"
    by blast
next
  have a: "\<not> (x \<lparr>x = 5, y = 3\<rparr> \<le> 0 \<or> x \<lparr>x = 5, y = 3\<rparr> \<ge> height (Game_init 44 44) - 1
               \<or> y \<lparr>x = 5, y = 3\<rparr> \<le> 0 \<or> y \<lparr>x = 5, y = 3\<rparr> \<ge> width (Game_init 44 44) - 1)"
    and b: "body (snake (Game_init 44 44)) \<noteq> []"
    by (simp_all add: Game_init_def)
  have c: "\<not> (\<exists>i. i + 1 < length (body (snake (Game_init 44 44)))
               \<and> x (body (snake (Game_init 44 44)) ! i) = x \<lparr>x = 5, y = 3\<rparr>
               \<and> y (body (snake (Game_init 44 44)) ! i) = y \<lparr>x = 5, y = 3\<rparr>)"
    using list_ex_butlast_nth [of "\<lambda>b. x b = 5 \<and> y b = 3" "body (snake (Game_init 44 44))"]
    by (simp add: Game_init_def)
  have d: "\<not> game_over (Game_init 44 44)"
    by (simp add: Game_init_def)
  from validate_direction_self [OF a b, of "(0, 0)"] c d
  show "\<exists>g'. validate_direction (Game_init 44 44) \<lparr>x = 5, y = 3\<rparr> (0, 0) = Inr g'
            \<and> \<not> game_over g'"
    by blast
qed

subsection \<open>Where the snake grows\<close>

text \<open>
  C8. When the apple is eaten (the new head passes both checks and is the apple's
  position), the point put at index 0 of the body is \<open>(tail.x + 1, tail.y + 1)\<close>, where
  \<open>tail\<close> is the first element of the body at that moment. This point is the tail plus
  \<open>(1, 1)\<close>, and it is not the tail plus the vector of any direction, so it lies
  neither along nor against the direction of travel.
\<close>

theorem growth_point:
  assumes "\<not> (x new_head \<le> 0 \<or> x new_head \<ge> height g - 1
               \<or> y new_head \<le> 0 \<or> y new_head \<ge> width g - 1)"
    and "\<not> (\<exists>i. i + 1 < length (body (snake g))
                 \<and> x (body (snake g) ! i) = x new_head
                 \<and> y (body (snake g) ! i) = y new_head)"
    and "new_head = position (apple g)"
    and "body (snake g) = t # rest"
  shows "\<exists>g'. validate_direction g new_head rnd = Inr g'
     \<and> body (snake g') = \<lparr>x = x t + 1, y = y t + 1\<rparr> # t # rest
     \<and> body (snake g') ! 0 = Point_add t \<lparr>x = 1, y = 1\<rparr>
     \<and> (\<forall>d. body (snake g') ! 0 \<noteq> Point_add t (DIRECTION_VECTORS d))"
proof -
  have nohit: "\<not> list_ex (\<lambda>b. x b = x new_head \<and> y b = y new_head) (butlast (body (snake g)))"
    using assms(2)
      list_ex_butlast_nth [of "\<lambda>b. x b = x new_head \<and> y b = y new_head" "body (snake g)"]
    by blast
  have ne: "body (snake g) \<noteq> []"
    using assms(4) by simp
  note v = validate_direction_eat [OF assms(1) nohit assms(3) ne, of rnd]
  have "\<lparr>x = x t + 1, y = y t + 1\<rparr> \<noteq> Point_add t (DIRECTION_VECTORS d)" for d
    by (cases d) (simp_all add: Point_add_def)
  then show ?thesis
    using v assms(4) by (simp add: Point_add_def)
qed

theorem growth_point_witness:
  "\<exists>g'. validate_direction apple_ahead \<lparr>x = 5, y = 3\<rparr> (0, 0) = Inr g'
     \<and> body (snake g') = [\<lparr>x = 2, y = 4\<rparr>, \<lparr>x = 1, y = 3\<rparr>, \<lparr>x = 2, y = 3\<rparr>, \<lparr>x = 3, y = 3\<rparr>,
                          \<lparr>x = 4, y = 3\<rparr>]"
proof -
  have a: "\<not> (x \<lparr>x = 5, y = 3\<rparr> \<le> 0 \<or> x \<lparr>x = 5, y = 3\<rparr> \<ge> height apple_ahead - 1
               \<or> y \<lparr>x = 5, y = 3\<rparr> \<le> 0 \<or> y \<lparr>x = 5, y = 3\<rparr> \<ge> width apple_ahead - 1)"
    and c: "\<lparr>x = 5, y = 3\<rparr> = position (apple apple_ahead)"
    and d: "body (snake apple_ahead) = \<lparr>x = 1, y = 3\<rparr> # [\<lparr>x = 2, y = 3\<rparr>, \<lparr>x = 3, y = 3\<rparr>, \<lparr>x = 4, y = 3\<rparr>]"
    by (simp_all add: apple_ahead_def Game_init_def)
  have b: "\<not> (\<exists>i. i + 1 < length (body (snake apple_ahead))
               \<and> x (body (snake apple_ahead) ! i) = x \<lparr>x = 5, y = 3\<rparr>
               \<and> y (body (snake apple_ahead) ! i) = y \<lparr>x = 5, y = 3\<rparr>)"
    using list_ex_butlast_nth [of "\<lambda>b. x b = 5 \<and> y b = 3" "body (snake apple_ahead)"]
    by (simp add: apple_ahead_def Game_init_def)
  from growth_point [OF a b c d, of "(0, 0)"]
  obtain g' where "validate_direction apple_ahead \<lparr>x = 5, y = 3\<rparr> (0, 0) = Inr g'"
    "body (snake g') = \<lparr>x = x \<lparr>x = 1, y = 3\<rparr> + 1, y = y \<lparr>x = 1, y = 3\<rparr> + 1\<rparr>
                        # \<lparr>x = 1, y = 3\<rparr> # [\<lparr>x = 2, y = 3\<rparr>, \<lparr>x = 3, y = 3\<rparr>, \<lparr>x = 4, y = 3\<rparr>]"
    by blast
  then show ?thesis
    by (intro exI [of _ g']) simp
qed

text \<open>
  In \<open>move\<close> the growth point does not stay: \<open>pop(0)\<close> removes the element at index
  0, which after an apple consumption is the growth point just inserted. The body
  after such a move is the body before, followed by the new head.
\<close>

lemma move_eat_body:
  assumes "body (snake g) \<noteq> []"
    and "nd = (case d of None \<Rightarrow> direction (snake g) | Some d' \<Rightarrow> d')"
    and "new_head = Point_add (last (body (snake g))) (DIRECTION_VECTORS nd)"
    and "eats g new_head"
  shows "\<exists>g'. move g d rnd = Inr g' \<and> body (snake g') = body (snake g) @ [new_head]"
proof -
  from assms(4) have "\<not> (x new_head \<le> 0 \<or> x new_head \<ge> height g - 1
                          \<or> y new_head \<le> 0 \<or> y new_head \<ge> width g - 1)"
    and "\<not> list_ex (\<lambda>b. x b = x new_head \<and> y b = y new_head) (butlast (body (snake g)))"
    and "new_head = position (apple g)"
    unfolding eats_def by blast+
  note v = validate_direction_eat [OF this assms(1), of rnd]
  from move_after_validate [OF assms(1) v [unfolded assms(3) assms(2)]]
  show ?thesis
    unfolding assms(2,3) by auto
qed

subsection \<open>Where the apple appears\<close>

lemma randint_1_40: "1 \<le> randint 1 40 r \<and> randint 1 40 r \<le> 40"
proof -
  have "r mod 40 < 40" by simp
  then show ?thesis by (simp add: randint_def)
qed

lemma randint_small: "r < 40 \<Longrightarrow> randint 1 40 r = 1 + int r"
  by (simp add: randint_def)

lemma spawn_apple_position:
  "position (apple (spawn_apple g rnd)) = \<lparr>x = randint 1 40 (fst rnd), y = randint 1 40 (snd rnd)\<rparr>"
  by (simp add: spawn_apple_def print_def Let_def)

text \<open>
  C7. \<open>spawn_apple\<close> puts the apple at a pair of two separate draws of
  \<open>randint(1, 40)\<close>: both coordinates lie in \<open>[1, 40]\<close>; the position depends on the
  draws alone, not on the state (its width, height or snake); the snake and the grid
  size are not touched. As the pair of generator values ranges over
  \<open>{0..<40} \<times> {0..<40}\<close>, the position takes every value of \<open>[1, 40] \<times> [1, 40]\<close>
  exactly once, so equally likely, independent generator values give equally likely
  cells with independent coordinates, and no cell is excluded, whether the snake
  covers it or the grid is too small to hold it.
\<close>

theorem spawn_apple_fixed_range:
  "1 \<le> x (position (apple (spawn_apple g rnd))) \<and> x (position (apple (spawn_apple g rnd))) \<le> 40
   \<and> 1 \<le> y (position (apple (spawn_apple g rnd))) \<and> y (position (apple (spawn_apple g rnd))) \<le> 40
   \<and> position (apple (spawn_apple g rnd)) = position (apple (spawn_apple g' rnd))
   \<and> snake (spawn_apple g rnd) = snake g
   \<and> height (spawn_apple g rnd) = height g \<and> width (spawn_apple g rnd) = width g
   \<and> bij_betw (\<lambda>r. position (apple (spawn_apple g r))) ({0..<40} \<times> {0..<40})
        {p. 1 \<le> x p \<and> x p \<le> 40 \<and> 1 \<le> y p \<and> y p \<le> 40}"
proof -
  let ?f = "\<lambda>r. position (apple (spawn_apple g r))"
  let ?R = "{p::Point. 1 \<le> x p \<and> x p \<le> 40 \<and> 1 \<le> y p \<and> y p \<le> 40}"
  have inj: "inj_on ?f ({0..<40} \<times> {0..<40})"
    by (rule inj_onI) (auto simp: spawn_apple_position randint_small)
  have "?f ` ({0..<40} \<times> {0..<40}) = ?R"
  proof (intro equalityI subsetI)
    fix p assume "p \<in> ?f ` ({0..<40} \<times> {0..<40})"
    then show "p \<in> ?R"
      using randint_1_40 by (auto simp: spawn_apple_position)
  next
    fix p :: Point assume "p \<in> ?R"
    then have p: "1 \<le> x p" "x p \<le> 40" "1 \<le> y p" "y p \<le> 40" by simp_all
    have "?f (nat (x p - 1), nat (y p - 1)) = p"
      using p by (simp add: spawn_apple_position randint_def)
    moreover have "(nat (x p - 1), nat (y p - 1)) \<in> {0..<40} \<times> {0..<40}"
      using p by auto
    ultimately show "p \<in> ?f ` ({0..<40} \<times> {0..<40})"
      by (metis (no_types, lifting) image_eqI)
  qed
  with inj have "bij_betw ?f ({0..<40} \<times> {0..<40}) ?R"
    by (simp add: bij_betw_def)
  moreover have "snake (spawn_apple g rnd) = snake g" "height (spawn_apple g rnd) = height g"
    "width (spawn_apple g rnd) = width g"
    by (simp_all add: spawn_apple_def print_def Let_def)
  ultimately show ?thesis
    using randint_1_40 [of "fst rnd"] randint_1_40 [of "snd rnd"]
    by (simp add: spawn_apple_position)
qed

theorem spawn_apple_fixed_range_witness:
  "position (apple (spawn_apple (Game_init 44 44) (0, 2))) = \<lparr>x = 1, y = 3\<rparr>
   \<and> \<lparr>x = 1, y = 3\<rparr> \<in> set (body (snake (spawn_apple (Game_init 44 44) (0, 2))))
   \<and> position (apple (spawn_apple (Game_init 20 10) (39, 39))) = \<lparr>x = 40, y = 40\<rparr>
   \<and> bij_betw (\<lambda>r. position (apple (spawn_apple (Game_init 20 10) r))) ({0..<40} \<times> {0..<40})
        {p. 1 \<le> x p \<and> x p \<le> 40 \<and> 1 \<le> y p \<and> y p \<le> 40}"
  using spawn_apple_fixed_range [of "Game_init 44 44" "(0, 2)" "Game_init 44 44"]
    spawn_apple_fixed_range [of "Game_init 20 10" "(39, 39)" "Game_init 20 10"]
  by (simp add: spawn_apple_position randint_def Game_init_def)

subsection \<open>Eating the apple\<close>

text \<open>
  C5. When the new head passes the wall check and the self-collision check and is the
  apple's position \<open>P\<close>, \<open>validate_direction\<close> returns a state in which the apple is
  at the pair of two fresh \<open>randint(1, 40)\<close> draws, the body is the old body with one
  point put in front, the speed is \<open>max(0.05, speed * 0.9)\<close> in float arithmetic, and
  the score is one higher. The new apple position is \<open>P\<close> again exactly when the draws
  are the coordinates of \<open>P\<close>.
\<close>

theorem apple_consumption:
  assumes "\<not> (x new_head \<le> 0 \<or> x new_head \<ge> height g - 1
               \<or> y new_head \<le> 0 \<or> y new_head \<ge> width g - 1)"
    and "\<not> (\<exists>i. i + 1 < length (body (snake g))
                 \<and> x (body (snake g) ! i) = x new_head
                 \<and> y (body (snake g) ! i) = y new_head)"
    and "new_head = position (apple g)"
    and "body (snake g) \<noteq> []"
  shows "\<exists>g'. validate_direction g new_head rnd = Inr g'
     \<and> position (apple g') = \<lparr>x = randint 1 40 (fst rnd), y = randint 1 40 (snd rnd)\<rparr>
     \<and> (\<exists>p. body (snake g') = p # body (snake g))
     \<and> speed g' = max (float_lit (5 / 100)) (fmul (speed g) (float_lit (9 / 10)))
     \<and> score g' = score g + 1
     \<and> (position (apple g') = new_head
          \<longleftrightarrow> randint 1 40 (fst rnd) = x new_head \<and> randint 1 40 (snd rnd) = y new_head)"
proof -
  have nohit: "\<not> list_ex (\<lambda>b. x b = x new_head \<and> y b = y new_head) (butlast (body (snake g)))"
    using assms(2)
      list_ex_butlast_nth [of "\<lambda>b. x b = x new_head \<and> y b = y new_head" "body (snake g)"]
    by blast
  have "\<lparr>x = a, y = b\<rparr> = new_head \<longleftrightarrow> a = x new_head \<and> b = y new_head" for a b
    by (cases new_head) simp
  then show ?thesis
    by (simp add: validate_direction_eat [OF assms(1) nohit assms(3) assms(4)] py_max_max)
qed

theorem apple_consumption_witness:
  "\<exists>g'. validate_direction apple_ahead \<lparr>x = 5, y = 3\<rparr> (6, 1) = Inr g'
     \<and> position (apple g') = \<lparr>x = 7, y = 2\<rparr>
     \<and> length (body (snake g')) = 5
     \<and> speed g' = 8106479329266893 / 2 ^ 54
     \<and> score g' = 1"
proof -
  have a: "\<not> (x \<lparr>x = 5, y = 3\<rparr> \<le> 0 \<or> x \<lparr>x = 5, y = 3\<rparr> \<ge> height apple_ahead - 1
               \<or> y \<lparr>x = 5, y = 3\<rparr> \<le> 0 \<or> y \<lparr>x = 5, y = 3\<rparr> \<ge> width apple_ahead - 1)"
    and c: "\<lparr>x = 5, y = 3\<rparr> = position (apple apple_ahead)"
    and d: "body (snake apple_ahead) \<noteq> []"
    by (simp_all add: apple_ahead_def Game_init_def)
  have b: "\<not> (\<exists>i. i + 1 < length (body (snake apple_ahead))
               \<and> x (body (snake apple_ahead) ! i) = x \<lparr>x = 5, y = 3\<rparr>
               \<and> y (body (snake apple_ahead) ! i) = y \<lparr>x = 5, y = 3\<rparr>)"
    using list_ex_butlast_nth [of "\<lambda>b. x b = 5 \<and> y b = 3" "body (snake apple_ahead)"]
    by (simp add: apple_ahead_def Game_init_def)
  from apple_consumption [OF a b c d, of "(6, 1)"]
  obtain g' p where g': "validate_direction apple_ahead \<lparr>x = 5, y = 3\<rparr> (6, 1) = Inr g'"
    "position (apple g') = \<lparr>x = randint 1 40 (fst (6::nat, 1::nat)),
                             y = randint 1 40 (snd (6::nat, 1::nat))\<rparr>"
    "body (snake g') = p # body (snake apple_ahead)"
    "speed g' = max (float_lit (5 / 100)) (fmul (speed apple_ahead) (float_lit (9 / 10)))"
    "score g' = score apple_ahead + 1"
    by blast
  have s: "speed apple_ahead = 1 / 2"
    by (simp add: apple_ahead_def Game_init_def float_lit_half')
  have "speed g' = max (3602879701896397 / 2 ^ 56) (8106479329266893 / 2 ^ 54)"
    by (simp only: g'(4) s float_lit_005 float_lit_09 fmul_half_09)
  also have "\<dots> = 8106479329266893 / 2 ^ 54"
    by simp
  finally have "speed g' = 8106479329266893 / 2 ^ 54" .
  with g' show ?thesis
    by (intro exI [of _ g']) (simp add: randint_def apple_ahead_def Game_init_def)
qed

subsection \<open>A game never raises\<close>

text \<open>
  No call shortens the body. So in a game, which starts with four body elements, the
  body is never empty, every call returns, and the conditions \<open>body \<noteq> []\<close> of the
  theorems above hold in every state reached.
\<close>

lemma validate_direction_body:
  assumes "validate_direction g p rnd = Inr g'"
  shows "body (snake g') = body (snake g) \<or> (\<exists>q. body (snake g') = q # body (snake g))"
proof -
  let ?wall = "x p \<le> 0 \<or> x p \<ge> height g - 1 \<or> y p \<le> 0 \<or> y p \<ge> width g - 1"
  let ?hit = "list_ex (\<lambda>b. x b = x p \<and> y b = y p) (butlast (body (snake g)))"
  consider (stop) "?wall \<or> ?hit"
    | (pass) "\<not> ?wall" "\<not> ?hit" "p \<noteq> position (apple g)"
    | (eat) "\<not> ?wall" "\<not> ?hit" "p = position (apple g)"
    by blast
  then show ?thesis
  proof cases
    case stop
    have "validate_direction g p rnd = Inr (g\<lparr>game_over := True\<rparr>)"
      using stop validate_direction_stop [of p g rnd] by blast
    with assms show ?thesis by auto
  next
    case pass
    then have "validate_direction g p rnd = Inr g"
      by (rule validate_direction_pass)
    with assms show ?thesis by auto
  next
    case eat
    have ne: "body (snake g) \<noteq> []"
    proof
      assume "body (snake g) = []"
      with eat have "validate_direction g p rnd = Inl IndexError"
        by (simp add: validate_direction_def spawn_apple_def print_def Let_def tail_def)
      with assms show False by simp
    qed
    from validate_direction_eat [OF eat ne, of rnd] assms show ?thesis
      by auto
  qed
qed

lemma validate_direction_returns:
  assumes "body (snake g) \<noteq> []"
  shows "\<exists>g'. validate_direction g p rnd = Inr g'"
  using assms
  by (simp add: validate_direction_def spawn_apple_def print_def Let_def tail_nonempty)

lemma move_returns:
  assumes "body (snake g) \<noteq> []"
  shows "\<exists>g'. move g d rnd = Inr g' \<and> length (body (snake g)) \<le> length (body (snake g'))"
proof -
  let ?nh = "Point_add (last (body (snake g)))
               (DIRECTION_VECTORS (case d of None \<Rightarrow> direction (snake g) | Some d' \<Rightarrow> d'))"
  obtain g1 where v: "validate_direction g ?nh rnd = Inr g1"
    using validate_direction_returns [OF assms] by blast
  from move_after_validate [OF assms v]
  obtain g' where g': "move g d rnd = Inr g'" "body (snake g') = tl (body (snake g1) @ [?nh])"
    by blast
  from validate_direction_body [OF v] have "length (body (snake g)) \<le> length (body (snake g1))"
    by auto
  with g' show ?thesis by auto
qed

lemma exec_returns:
  assumes "body (snake g) \<noteq> []"
  shows "\<exists>g'. exec g c rnd = Inr g' \<and> length (body (snake g)) \<le> length (body (snake g'))"
proof (cases c)
  case (Move d)
  with move_returns [OF assms] show ?thesis by simp
next
  case (GetMovement key)
  show ?thesis
  proof (cases "CONTROLS (lower key)")
    case None
    then have "lower key \<notin> set [''w'', ''a'', ''s'', ''d'']"
      using CONTROLS_None [of "lower key"] by blast
    with GetMovement show ?thesis by (simp add: get_movement_def)
  next
    case (Some nd)
    then have "lower key \<in> set [''w'', ''a'', ''s'', ''d'']"
      using CONTROLS_None [of "lower key"] by auto
    with GetMovement Some move_returns [OF assms, of "Some nd" rnd] show ?thesis
      by (simp add: get_movement_def)
  qed
next
  case (ValidateDirection p)
  obtain g' where v: "validate_direction g p rnd = Inr g'"
    using validate_direction_returns [OF assms] by blast
  from validate_direction_body [OF v] have "length (body (snake g)) \<le> length (body (snake g'))"
    by auto
  with v ValidateDirection show ?thesis by simp
next
  case SpawnApple
  then show ?thesis by (simp add: spawn_apple_def print_def Let_def)
next
  case UpdateScore
  then show ?thesis by (simp add: update_score_def print_def)
qed

lemma run_returns:
  assumes "body (snake g) \<noteq> []"
  shows "\<exists>g'. run g cs = Inr g' \<and> length (body (snake g)) \<le> length (body (snake g'))"
  using assms
proof (induction cs arbitrary: g)
  case Nil
  then show ?case by simp
next
  case (Cons a cs)
  obtain c rnd where a: "a = (c, rnd)" by (cases a)
  from exec_returns [OF Cons.prems, of c rnd]
  obtain g1 where g1: "exec g c rnd = Inr g1" "length (body (snake g)) \<le> length (body (snake g1))"
    by blast
  with Cons.prems have "body (snake g1) \<noteq> []" by auto
  from Cons.IH [OF this] obtain g' where "run g1 cs = Inr g'"
    "length (body (snake g1)) \<le> length (body (snake g'))"
    by blast
  with g1 a show ?case by auto
qed

lemma game_never_raises:
  "\<exists>g. run (Game_init w h) cs = Inr g \<and> 4 \<le> length (body (snake g))"
proof -
  have "body (snake (Game_init w h)) \<noteq> []" "length (body (snake (Game_init w h))) = 4"
    by (simp_all add: Game_init_def)
  with run_returns [of "Game_init w h" cs] show ?thesis by auto
qed

text \<open>
  A move that returns never leaves the body as it was, whether the new head is in a wall
  cell or not: either the first element is gone and the new head is the last element,
  or (after an apple consumption) the body is one element longer.
\<close>

lemma Point_add_vector_neq: "Point_add p (DIRECTION_VECTORS d) \<noteq> p"
  by (cases d; cases p) (simp_all add: Point_add_def)

lemma move_changes_body:
  assumes "move g d rnd = Inr g'"
  shows "body (snake g') \<noteq> body (snake g)"
proof -
  let ?nh = "Point_add (last (body (snake g)))
               (DIRECTION_VECTORS (case d of None \<Rightarrow> direction (snake g) | Some d' \<Rightarrow> d'))"
  have ne: "body (snake g) \<noteq> []"
    using assms move_empty [of g d rnd] by auto
  obtain g1 where v: "validate_direction g ?nh rnd = Inr g1"
    using validate_direction_returns [OF ne] by blast
  from move_after_validate [OF ne v] assms
  have b: "body (snake g') = tl (body (snake g1) @ [?nh])"
    by auto
  from validate_direction_body [OF v] show ?thesis
  proof
    assume "body (snake g1) = body (snake g)"
    with b ne have "body (snake g') = tl (body (snake g)) @ [?nh]" by simp
    then have "last (body (snake g')) = ?nh" by simp
    with Point_add_vector_neq show ?thesis by metis
  next
    assume "\<exists>q. body (snake g1) = q # body (snake g)"
    with b have "body (snake g') = body (snake g) @ [?nh]" by auto
    then show ?thesis by simp
  qed
qed

subsection \<open>The speed of a game\<close>

text \<open>The speed after one call.\<close>

lemma validate_direction_speed:
  assumes "validate_direction g p rnd = Inr g'"
  shows "speed g' = (if eats g p then py_max (float_lit (5 / 100)) (fmul (speed g) (float_lit (9 / 10)))
                     else speed g)"
proof -
  let ?wall = "x p \<le> 0 \<or> x p \<ge> height g - 1 \<or> y p \<le> 0 \<or> y p \<ge> width g - 1"
  let ?hit = "list_ex (\<lambda>b. x b = x p \<and> y b = y p) (butlast (body (snake g)))"
  consider (stop) "?wall \<or> ?hit"
    | (pass) "\<not> ?wall" "\<not> ?hit" "p \<noteq> position (apple g)"
    | (eat) "\<not> ?wall" "\<not> ?hit" "p = position (apple g)"
    by blast
  then show ?thesis
  proof cases
    case stop
    have "validate_direction g p rnd = Inr (g\<lparr>game_over := True\<rparr>)"
      using stop validate_direction_stop [of p g rnd] by blast
    with assms have "g' = g\<lparr>game_over := True\<rparr>" by simp
    moreover have "\<not> eats g p" using stop unfolding eats_def by blast
    ultimately show ?thesis by simp
  next
    case pass
    then have "validate_direction g p rnd = Inr g"
      by (rule validate_direction_pass)
    with assms have "g' = g" by simp
    moreover have "\<not> eats g p" using pass(3) unfolding eats_def by blast
    ultimately show ?thesis by simp
  next
    case eat
    have ne: "body (snake g) \<noteq> []"
    proof
      assume "body (snake g) = []"
      with eat have "validate_direction g p rnd = Inl IndexError"
        by (simp add: validate_direction_def spawn_apple_def print_def Let_def tail_def)
      with assms show False by simp
    qed
    have "eats g p" using eat unfolding eats_def by blast
    with validate_direction_eat [OF eat ne, of rnd] assms show ?thesis
      by auto
  qed
qed

lemma move_speed:
  assumes "move g d rnd = Inr g'"
  shows "speed g' = (if move_eats g d
                     then py_max (float_lit (5 / 100)) (fmul (speed g) (float_lit (9 / 10)))
                     else speed g)"
proof -
  let ?nh = "Point_add (last (body (snake g)))
               (DIRECTION_VECTORS (case d of None \<Rightarrow> direction (snake g) | Some d' \<Rightarrow> d'))"
  have ne: "body (snake g) \<noteq> []"
    using assms move_empty [of g d rnd] by auto
  obtain g1 where v: "validate_direction g ?nh rnd = Inr g1"
    using assms ne by (auto simp: move_def head_nonempty Let_def split: sum.splits)
  from move_after_validate [OF ne v] assms have "speed g' = speed g1"
    by auto
  with validate_direction_speed [OF v] ne show ?thesis
    by (simp add: move_eats_def)
qed

lemma exec_speed:
  assumes "exec g c rnd = Inr g'"
  shows "speed g' = (if call_eats g c
                     then py_max (float_lit (5 / 100)) (fmul (speed g) (float_lit (9 / 10)))
                     else speed g)"
proof (cases c)
  case (Move d)
  with assms show ?thesis by (simp add: move_speed)
next
  case (GetMovement key)
  show ?thesis
  proof (cases "CONTROLS (lower key)")
    case None
    then have "lower key \<notin> set [''w'', ''a'', ''s'', ''d'']"
      using CONTROLS_None [of "lower key"] by blast
    with assms GetMovement None show ?thesis
      by (simp add: get_movement_def)
  next
    case (Some nd)
    then have "lower key \<in> set [''w'', ''a'', ''s'', ''d'']"
      using CONTROLS_None [of "lower key"] by auto
    with assms GetMovement Some show ?thesis
      by (simp add: get_movement_def move_speed split: if_splits)
  qed
next
  case (ValidateDirection p)
  with assms show ?thesis by (simp add: validate_direction_speed)
next
  case SpawnApple
  with assms show ?thesis by (auto simp: spawn_apple_def print_def Let_def)
next
  case UpdateScore
  with assms show ?thesis by (auto simp: update_score_def print_def)
qed

text \<open>The invariant: the speed is a binary64 number between the two literals.\<close>

lemma speed_step:
  assumes "float_lit (5 / 100) \<le> s" and "round_binary64 s = s"
  shows "float_lit (5 / 100) \<le> py_max (float_lit (5 / 100)) (fmul s (float_lit (9 / 10)))"
    and "py_max (float_lit (5 / 100)) (fmul s (float_lit (9 / 10))) \<le> s"
    and "round_binary64 (py_max (float_lit (5 / 100)) (fmul s (float_lit (9 / 10))))
         = py_max (float_lit (5 / 100)) (fmul s (float_lit (9 / 10)))"
proof -
  let ?c = "float_lit (5 / 100)"
  let ?m = "fmul s (float_lit (9 / 10))"
  have c: "0 < ?c" by (simp add: float_lit_005')
  then have s: "0 < s" using assms(1) by simp
  have n: "0 < float_lit (9 / 10)" "float_lit (9 / 10) \<le> 1"
    by (simp_all add: float_lit_09)
  have pos: "0 < s * float_lit (9 / 10)"
    using s n(1) by simp
  have "s * float_lit (9 / 10) \<le> s * 1"
    using s n(2) by (intro mult_left_mono) simp_all
  then have "s * float_lit (9 / 10) \<le> s" by simp
  with pos have "round_binary64 (s * float_lit (9 / 10)) \<le> round_binary64 s"
    by (rule round_binary64_mono)
  then have m: "?m \<le> s"
    by (simp add: fmul_def assms(2))
  show "?c \<le> py_max ?c ?m"
    by (simp add: py_max_def)
  show "py_max ?c ?m \<le> s"
    using m assms(1) by (simp add: py_max_def)
  have "round_binary64 ?m = ?m"
    unfolding fmul_def using pos by (rule round_binary64_idem)
  moreover have "round_binary64 ?c = ?c"
    by (simp only: float_lit_005 round_binary64_005)
  ultimately show "round_binary64 (py_max ?c ?m) = py_max ?c ?m"
    by (simp add: py_max_def)
qed

lemma exec_invariant:
  assumes "float_lit (5 / 100) \<le> speed g" and "round_binary64 (speed g) = speed g"
    and "exec g c rnd = Inr g'"
  shows "float_lit (5 / 100) \<le> speed g'" and "speed g' \<le> speed g"
    and "round_binary64 (speed g') = speed g'"
  using speed_step [OF assms(1,2)] assms(1,2) exec_speed [OF assms(3)]
  by (simp_all split: if_splits)

lemma run_invariant:
  assumes "float_lit (5 / 100) \<le> speed g" and "round_binary64 (speed g) = speed g"
    and "run g cs = Inr g'"
  shows "float_lit (5 / 100) \<le> speed g' \<and> speed g' \<le> speed g
         \<and> round_binary64 (speed g') = speed g'"
  using assms
proof (induction cs arbitrary: g)
  case Nil
  then show ?case by simp
next
  case (Cons a cs)
  obtain c rnd where a: "a = (c, rnd)" by (cases a)
  with Cons.prems(3) obtain g1 where g1: "exec g c rnd = Inr g1" "run g1 cs = Inr g'"
    by (auto split: sum.splits)
  note e = exec_invariant [OF Cons.prems(1,2) g1(1)]
  from Cons.IH [OF e(1) e(3) g1(2)] e(2) show ?case
    by simp
qed

lemma Game_init_invariant:
  "float_lit (5 / 100) \<le> speed (Game_init w h)"
  "speed (Game_init w h) = 1 / 2"
  "round_binary64 (speed (Game_init w h)) = speed (Game_init w h)"
  by (simp_all add: Game_init_def float_lit_half' float_lit_005' round_binary64_half)

text \<open>
  C10. In every state \<open>g\<close> that a game reaches by calls of its methods, the speed lies
  between the floats \<open>0.05\<close> and \<open>0.5\<close> (and so between the rationals 5/100 and
  5/10). A call made in \<open>g\<close> that returns sets the speed to
  \<open>max(0.05, speed * 0.9)\<close> if it consumes the apple and leaves the speed as it is
  otherwise; in either case the speed does not grow, and it is no greater than in \<open>g\<close>
  in any state reached later.
\<close>

theorem speed_bounds:
  assumes "run (Game_init w h) cs = Inr g"
  shows "float_lit (5 / 100) \<le> speed g \<and> speed g \<le> float_lit (5 / 10)
     \<and> 5 / 100 \<le> speed g \<and> speed g \<le> 5 / 10
     \<and> (\<forall>c rnd g'. exec g c rnd = Inr g' \<longrightarrow>
           speed g' = (if call_eats g c
                       then max (float_lit (5 / 100)) (fmul (speed g) (float_lit (9 / 10)))
                       else speed g)
           \<and> speed g' \<le> speed g)
     \<and> (\<forall>cs' g'. run g cs' = Inr g' \<longrightarrow> speed g' \<le> speed g)"
proof -
  note i = run_invariant [OF Game_init_invariant(1,3) assms]
  have lo: "float_lit (5 / 100) \<le> speed g" and rep: "round_binary64 (speed g) = speed g"
    using i by simp_all
  have hi: "speed g \<le> 1 / 2"
    using i Game_init_invariant(2) [of w h] by simp
  have "(5::rat) / 100 \<le> float_lit (5 / 100)"
    by (simp add: float_lit_005')
  with lo have lo': "5 / 100 \<le> speed g" by simp
  have step: "speed g' = (if call_eats g c
                       then max (float_lit (5 / 100)) (fmul (speed g) (float_lit (9 / 10)))
                       else speed g)
           \<and> speed g' \<le> speed g" if "exec g c rnd = Inr g'" for c rnd g'
    using exec_speed [OF that] exec_invariant(2) [OF lo rep that]
    by (simp add: py_max_max)
  have later: "speed g' \<le> speed g" if "run g cs' = Inr g'" for cs' g'
    using run_invariant [OF lo rep that] by simp
  have hi': "speed g \<le> float_lit (5 / 10)"
    using hi by (simp only: float_lit_half)
  have hi'': "speed g \<le> 5 / 10"
    using hi by simp
  show ?thesis
    using lo hi' lo' hi'' step later by blast
qed

theorem speed_bounds_witness:
  "(\<exists>g. run (Game_init 44 44) [(ValidateDirection \<lparr>x = 20, y = 20\<rparr>, (0, 0))] = Inr g
        \<and> speed g = 8106479329266893 / 2 ^ 54
        \<and> float_lit (5 / 100) \<le> speed g \<and> speed g \<le> float_lit (5 / 10))
   \<and> run (Game_init 44 44) [] = Inr (Game_init 44 44)
   \<and> call_eats (Game_init 44 44) (ValidateDirection \<lparr>x = 20, y = 20\<rparr>)
   \<and> (\<exists>g'. exec (Game_init 44 44) (ValidateDirection \<lparr>x = 20, y = 20\<rparr>) (0, 0) = Inr g'
         \<and> speed g' = max (float_lit (5 / 100)) (fmul (speed (Game_init 44 44)) (float_lit (9 / 10)))
         \<and> speed g' \<le> speed (Game_init 44 44))
   \<and> \<not> call_eats (Game_init 44 44) (Move None)
   \<and> (\<exists>g'. exec (Game_init 44 44) (Move None) (0, 0) = Inr g'
         \<and> speed g' = speed (Game_init 44 44))
   \<and> (\<exists>g'. run (Game_init 44 44) [(Move None, (0, 0)), (GetMovement ''d'', (0, 0))] = Inr g'
         \<and> speed g' \<le> speed (Game_init 44 44))"
proof (intro conjI)
  have ne: "body (snake (Game_init 44 44)) \<noteq> []"
    by (simp add: Game_init_def)
  have "\<not> (x \<lparr>x = 20, y = 20\<rparr> \<le> 0 \<or> x \<lparr>x = 20, y = 20\<rparr> \<ge> height (Game_init 44 44) - 1
            \<or> y \<lparr>x = 20, y = 20\<rparr> \<le> 0 \<or> y \<lparr>x = 20, y = 20\<rparr> \<ge> width (Game_init 44 44) - 1)"
    and "\<not> list_ex (\<lambda>b. x b = x \<lparr>x = 20, y = 20\<rparr> \<and> y b = y \<lparr>x = 20, y = 20\<rparr>)
               (butlast (body (snake (Game_init 44 44))))"
    and "\<lparr>x = 20, y = 20\<rparr> = position (apple (Game_init 44 44))"
    by (simp_all add: Game_init_def)
  note v = validate_direction_eat [OF this ne, of "(0, 0)"]
  obtain g where g: "run (Game_init 44 44) [(ValidateDirection \<lparr>x = 20, y = 20\<rparr>, (0, 0))] = Inr g"
    "speed g = py_max (float_lit (5 / 100)) (fmul (speed (Game_init 44 44)) (float_lit (9 / 10)))"
    by (simp add: v)
  have "speed (Game_init 44 44) = 1 / 2"
    by (simp add: Game_init_def float_lit_half')
  then have "speed g = py_max (3602879701896397 / 2 ^ 56) (8106479329266893 / 2 ^ 54)"
    by (simp only: g(2) float_lit_005 float_lit_09 fmul_half_09)
  also have "\<dots> = 8106479329266893 / 2 ^ 54"
    by (simp add: py_max_def)
  finally have s: "speed g = 8106479329266893 / 2 ^ 54" .
  from speed_bounds [OF g(1)] have "float_lit (5 / 100) \<le> speed g" "speed g \<le> float_lit (5 / 10)"
    by blast+
  with g(1) s
  show "\<exists>g. run (Game_init 44 44) [(ValidateDirection \<lparr>x = 20, y = 20\<rparr>, (0, 0))] = Inr g
        \<and> speed g = 8106479329266893 / 2 ^ 54
        \<and> float_lit (5 / 100) \<le> speed g \<and> speed g \<le> float_lit (5 / 10)"
    by blast
  show r0: "run (Game_init 44 44) [] = Inr (Game_init 44 44)"
    by simp
  note b = speed_bounds [OF r0]
  show e: "call_eats (Game_init 44 44) (ValidateDirection \<lparr>x = 20, y = 20\<rparr>)"
    by (simp add: eats_def Game_init_def)
  obtain g1 where g1: "exec (Game_init 44 44) (ValidateDirection \<lparr>x = 20, y = 20\<rparr>) (0, 0) = Inr g1"
    using exec_returns [OF ne] by blast
  with b e
  show "\<exists>g'. exec (Game_init 44 44) (ValidateDirection \<lparr>x = 20, y = 20\<rparr>) (0, 0) = Inr g'
         \<and> speed g' = max (float_lit (5 / 100)) (fmul (speed (Game_init 44 44)) (float_lit (9 / 10)))
         \<and> speed g' \<le> speed (Game_init 44 44)"
    by (metis (no_types, lifting))
  show n: "\<not> call_eats (Game_init 44 44) (Move None)"
    by (simp add: move_eats_def eats_def Game_init_def Point_add_def)
  obtain g2 where g2: "exec (Game_init 44 44) (Move None) (0, 0) = Inr g2"
    using exec_returns [OF ne] by blast
  with b n
  show "\<exists>g'. exec (Game_init 44 44) (Move None) (0, 0) = Inr g'
         \<and> speed g' = speed (Game_init 44 44)"
    by (metis (no_types, lifting))
  obtain g3 where g3: "run (Game_init 44 44) [(Move None, (0, 0)), (GetMovement ''d'', (0, 0))]
                       = Inr g3"
    using run_returns [OF ne] by blast
  with b
  show "\<exists>g'. run (Game_init 44 44) [(Move None, (0, 0)), (GetMovement ''d'', (0, 0))] = Inr g'
         \<and> speed g' \<le> speed (Game_init 44 44)"
    by blast
qed

end
